theory Spec2Isabelle
  imports Main "HOL-Library.Word"
begin

unbundle bit_operations_syntax

section \<open>Python values and failures\<close>

text \<open>
  The program of \<^verbatim>\<open>update_db_generator.py\<close> works on the values that \<^verbatim>\<open>json\<close>
  produces and consumes: \<^verbatim>\<open>None\<close>, booleans, integers, strings, lists and dictionaries
  with string keys. A dictionary is an association list in insertion order (the order
  \<^verbatim>\<open>json.dump\<close> writes); a Python dictionary never holds a key twice, which is the
  predicate \<open>wf_py\<close> below. Floating-point numbers are outside the model.

  A \<^verbatim>\<open>char\<close> is a byte in a file and a code point below 256 in a Python string.
\<close>

datatype pyval =
    PNone
  | PBool bool
  | PInt int
  | PStr string
  | PList "pyval list"
  | PDict "(string \<times> pyval) list"

text \<open>
  Every way a call can fail to return: \<^verbatim>\<open>sys.exit(code)\<close> after a \<^verbatim>\<open>print\<close> of a
  message, or one of the exceptions of Python and its libraries (nothing in the program
  catches any). \<open>Unmodelled\<close> marks an input on which the model does not say what Python
  does (a float literal, a code point above 255, a hash algorithm other than MD5);
  \<open>OutOfFuel\<close> is the bound the model puts on the recursion of the JSON decoder.
\<close>

datatype error =
    SystemExit string int
  | AttributeError
  | TypeError
  | KeyError
  | ValueError
  | RequestException
  | JSONDecodeError
  | FileNotFoundError
  | Unmodelled
  | OutOfFuel

text \<open>
  Python's \<^verbatim>\<open>==\<close> on these values: \<^verbatim>\<open>True == 1\<close> and \<^verbatim>\<open>False == 0\<close> hold, lists are
  compared element by element, dictionaries by size and then key by key, whatever the order
  of insertion.
\<close>

fun py_eq :: "pyval \<Rightarrow> pyval \<Rightarrow> bool" where
  "py_eq PNone PNone = True"
| "py_eq (PBool a) (PBool b) = (a = b)"
| "py_eq (PBool a) (PInt j) = ((if a then 1 else 0) = j)"
| "py_eq (PInt i) (PBool b) = (i = (if b then 1 else 0))"
| "py_eq (PInt i) (PInt j) = (i = j)"
| "py_eq (PStr s) (PStr t) = (s = t)"
| "py_eq (PList xs) (PList ys) = list_all2 py_eq xs ys"
| "py_eq (PDict a) (PDict b) =
     (length a = length b \<and>
      list_all (\<lambda>kv. case map_of b (fst kv) of None \<Rightarrow> False | Some w \<Rightarrow> py_eq (snd kv) w) a)"
| "py_eq _ _ = False"

fun wf_py :: "pyval \<Rightarrow> bool" where
  "wf_py (PList xs) = list_all wf_py xs"
| "wf_py (PDict kvs) = (distinct (map fst kvs) \<and> list_all (\<lambda>kv. wf_py (snd kv)) kvs)"
| "wf_py _ = True"

subsection \<open>Dictionary operations\<close>

text \<open>\<^verbatim>\<open>x.get(key, default)\<close>: only a dictionary has the method.\<close>

fun py_get :: "pyval \<Rightarrow> string \<Rightarrow> pyval \<Rightarrow> error + pyval" where
  "py_get (PDict kvs) k d = Inr (case map_of kvs k of None \<Rightarrow> d | Some v \<Rightarrow> v)"
| "py_get _ k d = Inl AttributeError"

text \<open>\<^verbatim>\<open>x[key]\<close> with a string key.\<close>

fun py_getitem :: "pyval \<Rightarrow> string \<Rightarrow> error + pyval" where
  "py_getitem (PDict kvs) k = (case map_of kvs k of None \<Rightarrow> Inl KeyError | Some v \<Rightarrow> Inr v)"
| "py_getitem _ k = Inl TypeError"

text \<open>
  \<^verbatim>\<open>x[key] = v\<close>: an existing key keeps its place, a new key goes to the end.
\<close>

fun dict_set :: "string \<Rightarrow> pyval \<Rightarrow> (string \<times> pyval) list \<Rightarrow> (string \<times> pyval) list" where
  "dict_set k v [] = [(k, v)]"
| "dict_set k v (p # ps) = (if fst p = k then (k, v) # ps else p # dict_set k v ps)"

fun py_setitem :: "pyval \<Rightarrow> string \<Rightarrow> pyval \<Rightarrow> error + pyval" where
  "py_setitem (PDict kvs) k v = Inr (PDict (dict_set k v kvs))"
| "py_setitem _ k v = Inl TypeError"

text \<open>
  \<^verbatim>\<open>x[k1]...[kn][key] = v\<close>: the inner objects are reached by reference and the innermost
  is mutated, so the outer ones see the change.
\<close>

fun py_setitem_at :: "pyval \<Rightarrow> string list \<Rightarrow> string \<Rightarrow> pyval \<Rightarrow> error + pyval" where
  "py_setitem_at x [] key v = py_setitem x key v"
| "py_setitem_at x (k # ks) key v =
     (case py_getitem x k of
        Inl e \<Rightarrow> Inl e
      | Inr inner \<Rightarrow>
          (case py_setitem_at inner ks key v of
             Inl e \<Rightarrow> Inl e
           | Inr inner' \<Rightarrow> py_setitem x k inner'))"

text \<open>\<^verbatim>\<open>for item in x\<close>: the items a loop over \<open>x\<close> visits.\<close>

fun py_iter :: "pyval \<Rightarrow> error + pyval list" where
  "py_iter (PList xs) = Inr xs"
| "py_iter (PDict kvs) = Inr (map (\<lambda>kv. PStr (fst kv)) kvs)"
| "py_iter (PStr s) = Inr (map (\<lambda>c. PStr [c]) s)"
| "py_iter _ = Inl TypeError"

section \<open>The environment of a run\<close>

text \<open>
  What \<^verbatim>\<open>requests.get\<close> hands back: the status code, what \<^verbatim>\<open>response.json()\<close> returns
  or raises, the chunks \<^verbatim>\<open>response.iter_content(chunk_size=8192)\<close> yields, and the
  exception the stream ends with, if the transfer breaks after them.
\<close>

record response =
  status_code :: int
  json_body :: "error + pyval"
  iter_content :: "string list"
  stream_error :: "error option"

text \<open>
  The outside world of one run: the network (the answer to the \<open>n\<close>-th request of the run,
  by URL), the clock \<^verbatim>\<open>int(time.time())\<close>, and the name
  \<^verbatim>\<open>tempfile.NamedTemporaryFile\<close> gives the file it creates during the \<open>n\<close>-th request.
\<close>

record env =
  http :: "nat \<Rightarrow> string \<Rightarrow> error + response"
  clock :: int
  tmp_name :: "nat \<Rightarrow> string"

text \<open>
  \<^verbatim>\<open>requests.get(url, ...)\<close>: a URL that is not a string has no scheme \<^verbatim>\<open>requests\<close>
  can connect to, and the call raises.
\<close>

definition requests_get :: "env \<Rightarrow> nat \<Rightarrow> pyval \<Rightarrow> error + response" where
  "requests_get e n url = (case url of PStr u \<Rightarrow> http e n u | _ \<Rightarrow> Inl RequestException)"

definition GH_REPO_API_URL :: string where
  "GH_REPO_API_URL = ''https://api.github.com/repos/bleach86/mister_cloud_saves/releases/latest''"

definition SCRIPT_RAW_URL :: string where
  "SCRIPT_RAW_URL = ''https://raw.githubusercontent.com/bleach86/mister_cloud_saves/refs/heads/main/scripts/cloud_saves.sh''"

definition UPDATE_DB_FILE :: string where
  "UPDATE_DB_FILE = ''mister_cloud_saves_db.json''"

section \<open>The release locator\<close>

text \<open>
  The loop of \<^verbatim>\<open>get_tag_and_latest_release_url\<close> over the assets: \<open>Some\<close> is the
  \<^verbatim>\<open>return\<close> inside the loop, \<open>None\<close> is the loop running to its end.
\<close>

fun assets_loop :: "pyval \<Rightarrow> pyval list \<Rightarrow> error + (pyval \<times> pyval) option" where
  "assets_loop tag_name [] = Inr None"
| "assets_loop tag_name (asset # assets) =
     (case py_get asset ''name'' PNone of
        Inl e \<Rightarrow> Inl e
      | Inr nm \<Rightarrow>
          if py_eq nm (PStr ''client.tar.xz'') then
            (case py_get asset ''browser_download_url'' PNone of
               Inl e \<Rightarrow> Inl e
             | Inr url \<Rightarrow> Inr (Some (url, tag_name)))
          else assets_loop tag_name assets)"

definition release_info_exit :: "error + (pyval \<times> pyval)" where
  "release_info_exit = Inl (SystemExit ''Error fetching latest release info'' 1)"

definition get_tag_and_latest_release_url :: "env \<Rightarrow> error + (pyval \<times> pyval)" where
  "get_tag_and_latest_release_url e =
     (case requests_get e 0 (PStr GH_REPO_API_URL) of
        Inl err \<Rightarrow> Inl err
      | Inr response \<Rightarrow>
          if status_code response = 200 then
            (case json_body response of
               Inl err \<Rightarrow> Inl err
             | Inr data \<Rightarrow>
                 (case py_get data ''tag_name'' (PStr ''unknown'') of
                    Inl err \<Rightarrow> Inl err
                  | Inr tag_name \<Rightarrow>
                      (case py_get data ''assets'' (PList []) of
                         Inl err \<Rightarrow> Inl err
                       | Inr assets \<Rightarrow>
                           (case py_iter assets of
                              Inl err \<Rightarrow> Inl err
                            | Inr items \<Rightarrow>
                                (case assets_loop tag_name items of
                                   Inl err \<Rightarrow> Inl err
                                 | Inr (Some r) \<Rightarrow> Inr r
                                 | Inr None \<Rightarrow> release_info_exit)))))
          else release_info_exit)"

section \<open>MD5\<close>

text \<open>
  \<^verbatim>\<open>hashlib.new("md5")\<close> is the MD5 of RFC 1321: four 32-bit registers, a buffer of the
  bytes that do not fill a 64-byte block yet, and the count of the bits seen, modulo
  \<open>2 ^ 64\<close>. Words are read and written least significant byte first.
\<close>

type_synonym u8 = "8 word"
type_synonym u32 = "32 word"
type_synonym u64 = "64 word"
type_synonym md5_regs = "u32 \<times> u32 \<times> u32 \<times> u32"

definition md5_K :: "u32 list" where
  "md5_K =
    [0xd76aa478, 0xe8c7b756, 0x242070db, 0xc1bdceee, 0xf57c0faf, 0x4787c62a, 0xa8304613, 0xfd469501,
     0x698098d8, 0x8b44f7af, 0xffff5bb1, 0x895cd7be, 0x6b901122, 0xfd987193, 0xa679438e, 0x49b40821,
     0xf61e2562, 0xc040b340, 0x265e5a51, 0xe9b6c7aa, 0xd62f105d, 0x02441453, 0xd8a1e681, 0xe7d3fbc8,
     0x21e1cde6, 0xc33707d6, 0xf4d50d87, 0x455a14ed, 0xa9e3e905, 0xfcefa3f8, 0x676f02d9, 0x8d2a4c8a,
     0xfffa3942, 0x8771f681, 0x6d9d6122, 0xfde5380c, 0xa4beea44, 0x4bdecfa9, 0xf6bb4b60, 0xbebfbc70,
     0x289b7ec6, 0xeaa127fa, 0xd4ef3085, 0x04881d05, 0xd9d4d039, 0xe6db99e5, 0x1fa27cf8, 0xc4ac5665,
     0xf4292244, 0x432aff97, 0xab9423a7, 0xfc93a039, 0x655b59c3, 0x8f0ccc92, 0xffeff47d, 0x85845dd1,
     0x6fa87e4f, 0xfe2ce6e0, 0xa3014314, 0x4e0811a1, 0xf7537e82, 0xbd3af235, 0x2ad7d2bb, 0xeb86d391]"

definition md5_S :: "nat list" where
  "md5_S =
    [7, 12, 17, 22, 7, 12, 17, 22, 7, 12, 17, 22, 7, 12, 17, 22,
     5, 9, 14, 20, 5, 9, 14, 20, 5, 9, 14, 20, 5, 9, 14, 20,
     4, 11, 16, 23, 4, 11, 16, 23, 4, 11, 16, 23, 4, 11, 16, 23,
     6, 10, 15, 21, 6, 10, 15, 21, 6, 10, 15, 21, 6, 10, 15, 21]"

definition rotl32 :: "u32 \<Rightarrow> nat \<Rightarrow> u32" where
  "rotl32 x n = push_bit n x OR drop_bit (32 - n) x"

text \<open>Step \<open>i\<close> (from 0 to 63) of the compression of one block, whose 16 words are \<open>m\<close>.\<close>

definition md5_round :: "u32 list \<Rightarrow> md5_regs \<Rightarrow> nat \<Rightarrow> md5_regs" where
  "md5_round m r i =
     (case r of (a, b, c, d) \<Rightarrow>
        let f = (if i < 16 then (b AND c) OR (NOT b AND d)
                 else if i < 32 then (d AND b) OR (NOT d AND c)
                 else if i < 48 then b XOR c XOR d
                 else c XOR (b OR NOT d));
            g = (if i < 16 then i
                 else if i < 32 then (5 * i + 1) mod 16
                 else if i < 48 then (3 * i + 5) mod 16
                 else (7 * i) mod 16)
        in (d, b + rotl32 (a + f + md5_K ! i + m ! g) (md5_S ! i), b, c))"

function md5_rounds :: "u32 list \<Rightarrow> md5_regs \<Rightarrow> nat \<Rightarrow> md5_regs" where
  "md5_rounds m r i = (if i < 64 then md5_rounds m (md5_round m r i) (i + 1) else r)"
  by pat_completeness auto
termination
  by (relation "measure (\<lambda>(m, r, i). 64 - i)") auto

declare md5_rounds.simps [simp del]

fun le_words :: "u8 list \<Rightarrow> u32 list" where
  "le_words (b0 # b1 # b2 # b3 # bs) =
     (ucast b0 OR push_bit 8 (ucast b1) OR push_bit 16 (ucast b2) OR push_bit 24 (ucast b3))
       # le_words bs"
| "le_words _ = []"

definition md5_compress :: "md5_regs \<Rightarrow> u8 list \<Rightarrow> md5_regs" where
  "md5_compress r block =
     (case r of (a0, b0, c0, d0) \<Rightarrow>
        (case md5_rounds (le_words block) r 0 of (a, b, c, d) \<Rightarrow>
           (a0 + a, b0 + b, c0 + c, d0 + d)))"

record md5 =
  regs :: md5_regs
  pending :: "u8 list"
  nbits :: u64

definition md5_new :: md5 where
  "md5_new =
     \<lparr>regs = (0x67452301, 0xefcdab89, 0x98badcfe, 0x10325476), pending = [], nbits = 0\<rparr>"

definition update_byte :: "md5 \<Rightarrow> u8 \<Rightarrow> md5" where
  "update_byte h b =
     (let buf = pending h @ [b] in
      if length buf = 64
      then \<lparr>regs = md5_compress (regs h) buf, pending = [], nbits = nbits h + 8\<rparr>
      else \<lparr>regs = regs h, pending = buf, nbits = nbits h + 8\<rparr>)"

text \<open>\<^verbatim>\<open>hash_func.update(chunk)\<close>.\<close>

definition md5_update :: "md5 \<Rightarrow> string \<Rightarrow> md5" where
  "md5_update h chunk = foldl update_byte h (map of_char chunk)"

definition le_bytes4 :: "u32 \<Rightarrow> u8 list" where
  "le_bytes4 w = map (\<lambda>k. ucast (drop_bit k w)) [0, 8, 16, 24]"

definition le_bytes8 :: "u64 \<Rightarrow> u8 list" where
  "le_bytes8 w = map (\<lambda>k. ucast (drop_bit k w)) [0, 8, 16, 24, 32, 40, 48, 56]"

text \<open>
  The padding: the byte \<open>0x80\<close>, zero bytes up to 56 modulo 64, and the bit count.
\<close>

definition md5_padding :: "md5 \<Rightarrow> u8 list" where
  "md5_padding h =
     0x80 # replicate ((119 - length (pending h)) mod 64) 0 @ le_bytes8 (nbits h)"

definition md5_digest :: "md5 \<Rightarrow> u8 list" where
  "md5_digest h =
     (case regs (foldl update_byte h (md5_padding h)) of (a, b, c, d) \<Rightarrow>
        concat (map le_bytes4 [a, b, c, d]))"

definition hex_digit :: "nat \<Rightarrow> char" where
  "hex_digit n = ''0123456789abcdef'' ! n"

definition hex_byte :: "u8 \<Rightarrow> string" where
  "hex_byte b = [hex_digit (unat (drop_bit 4 b)), hex_digit (unat (b AND 0x0f))]"

text \<open>\<^verbatim>\<open>hash_func.hexdigest()\<close>: two lowercase hexadecimal digits for each byte.\<close>

definition hexdigest :: "md5 \<Rightarrow> string" where
  "hexdigest h = concat (map hex_byte (md5_digest h))"

text \<open>\<^verbatim>\<open>hashlib.new(hash_algo)\<close>; MD5 is the only algorithm the program asks for.\<close>

definition hashlib_new :: "string \<Rightarrow> error + md5" where
  "hashlib_new hash_algo = (if hash_algo = ''md5'' then Inr md5_new else Inl Unmodelled)"

section \<open>Hashing a file\<close>

text \<open>
  A file system maps a path to the bytes of the file there. The loop of
  \<^verbatim>\<open>compute_file_hash\<close> reads 8192 bytes at a time and stops at the first empty read,
  which is the end of the file.
\<close>

type_synonym filesystem = "string \<rightharpoonup> string"

function read_loop :: "md5 \<Rightarrow> string \<Rightarrow> md5" where
  "read_loop hash_func unread =
     (let chunk = take 8192 unread in
      if chunk \<noteq> [] then read_loop (md5_update hash_func chunk) (drop 8192 unread)
      else hash_func)"
  by pat_completeness auto
termination
  by (relation "measure (\<lambda>(h, unread). length unread)") auto

declare read_loop.simps [simp del]

definition compute_file_hash :: "filesystem \<Rightarrow> string \<Rightarrow> string \<Rightarrow> error + string" where
  "compute_file_hash fs file_path hash_algo =
     (case hashlib_new hash_algo of
        Inl err \<Rightarrow> Inl err
      | Inr hash_func \<Rightarrow>
          (case fs file_path of
             None \<Rightarrow> Inl FileNotFoundError
           | Some content \<Rightarrow> Inr (hexdigest (read_loop hash_func content))))"

section \<open>Fetching a file\<close>

text \<open>\<^verbatim>\<open>tmp_file.write(chunk)\<close> and \<^verbatim>\<open>os.path.getsize\<close>.\<close>

definition file_write :: "filesystem \<Rightarrow> string \<Rightarrow> string \<Rightarrow> filesystem" where
  "file_write fs path chunk =
     (case fs path of None \<Rightarrow> fs(path \<mapsto> chunk) | Some content \<Rightarrow> fs(path \<mapsto> content @ chunk))"

definition getsize :: "filesystem \<Rightarrow> string \<Rightarrow> error + nat" where
  "getsize fs path =
     (case fs path of None \<Rightarrow> Inl FileNotFoundError | Some content \<Rightarrow> Inr (length content))"

text \<open>
  \<^verbatim>\<open>get_file_hash_and_size\<close>, as the \<open>n\<close>-th request of the run. The temporary file is
  new and empty, and is deleted when the \<^verbatim>\<open>with\<close> block is left, so the file system
  after the call is the one before it.
\<close>

definition get_file_hash_and_size ::
  "env \<Rightarrow> nat \<Rightarrow> filesystem \<Rightarrow> pyval \<Rightarrow> error + (nat \<times> string)" where
  "get_file_hash_and_size e n fs download_url =
     (let tmp_file = tmp_name e n;
          fs0 = fs(tmp_file \<mapsto> [])
      in case requests_get e n download_url of
           Inl err \<Rightarrow> Inl err
         | Inr response \<Rightarrow>
             if status_code response = 200 then
               (let fs1 = foldl (\<lambda>f chunk. file_write f tmp_file chunk) fs0 (iter_content response)
                in case stream_error response of
                     Some err \<Rightarrow> Inl err
                   | None \<Rightarrow>
                       (case getsize fs1 tmp_file of
                          Inl err \<Rightarrow> Inl err
                        | Inr file_size \<Rightarrow>
                            (case compute_file_hash fs1 tmp_file ''md5'' of
                               Inl err \<Rightarrow> Inl err
                             | Inr file_hash \<Rightarrow> Inr (file_size, file_hash))))
             else Inl (SystemExit ''Error downloading client file'' 1))"

section \<open>Building the manifest\<close>

definition get_update_db_schema :: pyval where
  "get_update_db_schema =
     PDict
      [(''v'', PInt 1),
       (''db_id'', PStr ''mister_cloud_saves''),
       (''timestamp'', PInt 0),
       (''files'',
        PDict
         [(''Scripts/cloud_saves.sh'',
           PDict
            [(''size'', PInt 0),
             (''hash'', PStr []),
             (''url'', PStr []),
             (''tags'', PList [PInt 1])]),
          (''cloud_saves/updates/client.tar.xz'',
           PDict
            [(''size'', PInt 0),
             (''hash'', PStr []),
             (''url'', PStr []),
             (''reboot'', PBool True),
             (''tags'', PList [PInt 0])])]),
       (''folders'',
        PDict [(''Scripts'', PDict []), (''cloud_saves'', PDict []), (''cloud_saves/updates'', PDict [])]),
       (''tags_dictionary'', PDict [(''cloudsaves'', PInt 0), (''scripts'', PInt 1)])]"

text \<open>
  The three assignments \<^verbatim>\<open>update_db["files"][path][...] = ...\<close> that fill one file entry.
\<close>

definition set_file_info :: "pyval \<Rightarrow> string \<Rightarrow> nat \<Rightarrow> string \<Rightarrow> pyval \<Rightarrow> error + pyval" where
  "set_file_info update_db path file_size file_hash url =
     (case py_setitem_at update_db [''files'', path] ''size'' (PInt (int file_size)) of
        Inl err \<Rightarrow> Inl err
      | Inr db1 \<Rightarrow>
          (case py_setitem_at db1 [''files'', path] ''hash'' (PStr file_hash) of
             Inl err \<Rightarrow> Inl err
           | Inr db2 \<Rightarrow> py_setitem_at db2 [''files'', path] ''url'' url))"

definition generate_update_db :: "env \<Rightarrow> filesystem \<Rightarrow> error + pyval" where
  "generate_update_db e fs =
     (case get_tag_and_latest_release_url e of
        Inl err \<Rightarrow> Inl err
      | Inr (client_download_url, tag) \<Rightarrow>
          (case py_setitem get_update_db_schema ''timestamp'' (PInt (clock e)) of
             Inl err \<Rightarrow> Inl err
           | Inr db1 \<Rightarrow>
               (case get_file_hash_and_size e 1 fs (PStr SCRIPT_RAW_URL) of
                  Inl err \<Rightarrow> Inl err
                | Inr (script_size, script_hash) \<Rightarrow>
                    (case set_file_info db1 ''Scripts/cloud_saves.sh'' script_size script_hash
                            (PStr SCRIPT_RAW_URL) of
                       Inl err \<Rightarrow> Inl err
                     | Inr db2 \<Rightarrow>
                         (case get_file_hash_and_size e 2 fs client_download_url of
                            Inl err \<Rightarrow> Inl err
                          | Inr (client_size, client_hash) \<Rightarrow>
                              set_file_info db2 ''cloud_saves/updates/client.tar.xz''
                                client_size client_hash client_download_url)))))"

section \<open>Writing JSON\<close>

text \<open>
  \<^verbatim>\<open>json.dump(update_db, f, indent=4)\<close> with the defaults of the standard library:
  \<^verbatim>\<open>ensure_ascii=True\<close>, the separators \<^verbatim>\<open>","\<close> and \<^verbatim>\<open>": "\<close>, keys in insertion order.
  The characters with a special role are written by their code: \<open>CHR 0x22\<close> is the double
  quote, \<open>CHR 0x5C\<close> the backslash, \<open>CHR 0x0A\<close> the newline.
\<close>

text \<open>One character of a string, as \<^verbatim>\<open>py_encode_basestring_ascii\<close> writes it.\<close>

definition escape_char :: "char \<Rightarrow> string" where
  "escape_char c =
     (if c = CHR 0x22 then [CHR 0x5C, CHR 0x22]
      else if c = CHR 0x5C then [CHR 0x5C, CHR 0x5C]
      else if c = CHR 0x0A then [CHR 0x5C, CHR ''n'']
      else if c = CHR 0x0D then [CHR 0x5C, CHR ''r'']
      else if c = CHR 0x09 then [CHR 0x5C, CHR ''t'']
      else if c = CHR 0x08 then [CHR 0x5C, CHR ''b'']
      else if c = CHR 0x0C then [CHR 0x5C, CHR ''f'']
      else if 0x20 \<le> (of_char c :: nat) \<and> (of_char c :: nat) \<le> 0x7E then [c]
      else [CHR 0x5C, CHR ''u'', CHR ''0'', CHR ''0'',
            hex_digit ((of_char c :: nat) div 16), hex_digit ((of_char c :: nat) mod 16)])"

definition encode_basestring_ascii :: "string \<Rightarrow> string" where
  "encode_basestring_ascii s = CHR 0x22 # concat (map escape_char s) @ [CHR 0x22]"

text \<open>\<^verbatim>\<open>int.__repr__\<close>: the decimal digits, after a minus sign for a negative number.\<close>

definition digit_char :: "nat \<Rightarrow> char" where
  "digit_char n = ''0123456789'' ! n"

function show_nat :: "nat \<Rightarrow> string" where
  "show_nat n = (if n < 10 then [digit_char n] else show_nat (n div 10) @ [digit_char (n mod 10)])"
  by pat_completeness auto
termination
  by (relation "measure id") auto

declare show_nat.simps [simp del]

definition show_int :: "int \<Rightarrow> string" where
  "show_int i = (if i < 0 then CHR ''-'' # show_nat (nat (- i)) else show_nat (nat i))"

text \<open>\<^verbatim>\<open>'\n' + _indent * _current_indent_level\<close>, with an indent of four spaces.\<close>

definition newline_indent :: "nat \<Rightarrow> string" where
  "newline_indent level = CHR 0x0A # replicate (4 * level) CHR '' ''"

fun join :: "string \<Rightarrow> string list \<Rightarrow> string" where
  "join sep [] = []"
| "join sep [x] = x"
| "join sep (x # y # ys) = x @ sep @ join sep (y # ys)"

text \<open>
  \<^verbatim>\<open>_iterencode\<close> at the indent level \<open>level\<close>: an empty list or dictionary is written
  without a line break, the items of any other on a line each, one level deeper.
\<close>

fun iterencode :: "nat \<Rightarrow> pyval \<Rightarrow> string" where
  "iterencode level PNone = ''null''"
| "iterencode level (PBool b) = (if b then ''true'' else ''false'')"
| "iterencode level (PInt i) = show_int i"
| "iterencode level (PStr s) = encode_basestring_ascii s"
| "iterencode level (PList lst) =
     (if lst = [] then ''[]''
      else ''['' @ newline_indent (level + 1)
           @ join (CHR '','' # newline_indent (level + 1)) (map (iterencode (level + 1)) lst)
           @ newline_indent level @ '']'')"
| "iterencode level (PDict dct) =
     (if dct = [] then ''{}''
      else ''{'' @ newline_indent (level + 1)
           @ join (CHR '','' # newline_indent (level + 1))
               (map (\<lambda>kv. encode_basestring_ascii (fst kv) @ '': '' @ iterencode (level + 1) (snd kv)) dct)
           @ newline_indent level @ ''}'')"

definition json_dump :: "pyval \<Rightarrow> string" where
  "json_dump obj = iterencode 0 obj"

section \<open>Reading JSON\<close>

text \<open>
  \<^verbatim>\<open>json.load(f)\<close> is \<^verbatim>\<open>json.loads\<close> of the text of the file. The decoder works on the
  text that is left to read. What it meets and the model leaves out is answered with
  \<open>Unmodelled\<close>: a byte above 127 (a multi-byte UTF-8 sequence), an escape
  \<^verbatim>\<open>\uXXXX\<close> of a code point above 255, and a number with a fraction or an exponent,
  \<^verbatim>\<open>NaN\<close> and \<^verbatim>\<open>Infinity\<close> (floats).
\<close>

definition is_ws :: "char \<Rightarrow> bool" where
  "is_ws c = (c = CHR '' '' \<or> c = CHR 0x09 \<or> c = CHR 0x0A \<or> c = CHR 0x0D)"

definition skip_ws :: "string \<Rightarrow> string" where
  "skip_ws s = dropWhile is_ws s"

definition is_digit :: "char \<Rightarrow> bool" where
  "is_digit c = (48 \<le> (of_char c :: nat) \<and> (of_char c :: nat) \<le> 57)"

definition hex_val :: "char \<Rightarrow> nat option" where
  "hex_val c =
     (let n = (of_char c :: nat) in
      if 48 \<le> n \<and> n \<le> 57 then Some (n - 48)
      else if 97 \<le> n \<and> n \<le> 102 then Some (n - 87)
      else if 65 \<le> n \<and> n \<le> 70 then Some (n - 55)
      else None)"

text \<open>\<^verbatim>\<open>_decode_uXXXX\<close>: four hexadecimal digits.\<close>

definition decode_uXXXX :: "char \<Rightarrow> char \<Rightarrow> char \<Rightarrow> char \<Rightarrow> error + char" where
  "decode_uXXXX h1 h2 h3 h4 =
     (case (hex_val h1, hex_val h2, hex_val h3, hex_val h4) of
        (Some a, Some b, Some c, Some d) \<Rightarrow>
          if a = 0 \<and> b = 0 then Inr (char_of (16 * c + d)) else Inl Unmodelled
      | _ \<Rightarrow> Inl JSONDecodeError)"

text \<open>The table \<^verbatim>\<open>BACKSLASH\<close> of the one-letter escapes.\<close>

definition backslash :: "char \<Rightarrow> char option" where
  "backslash c =
     (if c = CHR 0x22 then Some (CHR 0x22)
      else if c = CHR 0x5C then Some (CHR 0x5C)
      else if c = CHR ''/'' then Some (CHR ''/'')
      else if c = CHR ''b'' then Some (CHR 0x08)
      else if c = CHR ''f'' then Some (CHR 0x0C)
      else if c = CHR ''n'' then Some (CHR 0x0A)
      else if c = CHR ''r'' then Some (CHR 0x0D)
      else if c = CHR ''t'' then Some (CHR 0x09)
      else None)"

text \<open>
  \<^verbatim>\<open>scanstring\<close> in strict mode, on the text after the opening quote: the string and
  the text after the closing quote.
\<close>

fun scanstring :: "string \<Rightarrow> error + (string \<times> string)" where
  "scanstring [] = Inl JSONDecodeError"
| "scanstring (c # cs) =
     (if c = CHR 0x22 then Inr ([], cs)
      else if c = CHR 0x5C then
        (case cs of
           [] \<Rightarrow> Inl JSONDecodeError
         | esc # r \<Rightarrow>
             if esc = CHR ''u'' then
               (case r of
                  h1 # h2 # h3 # h4 # r' \<Rightarrow>
                    (case decode_uXXXX h1 h2 h3 h4 of
                       Inl e \<Rightarrow> Inl e
                     | Inr ch \<Rightarrow>
                         (case scanstring r' of
                            Inl e \<Rightarrow> Inl e
                          | Inr (str, rest) \<Rightarrow> Inr (ch # str, rest)))
                | _ \<Rightarrow> Inl JSONDecodeError)
             else
               (case backslash esc of
                  None \<Rightarrow> Inl JSONDecodeError
                | Some ch \<Rightarrow>
                    (case scanstring r of
                       Inl e \<Rightarrow> Inl e
                     | Inr (str, rest) \<Rightarrow> Inr (ch # str, rest))))
      else if (of_char c :: nat) < 0x20 then Inl JSONDecodeError
      else
        (case scanstring cs of
           Inl e \<Rightarrow> Inl e
         | Inr (str, rest) \<Rightarrow> Inr (c # str, rest)))"

text \<open>\<^verbatim>\<open>int(digits)\<close> on decimal digits.\<close>

definition digits_val :: "string \<Rightarrow> nat" where
  "digits_val ds = foldl (\<lambda>acc d. 10 * acc + (of_char d - 48)) 0 ds"

text \<open>
  The integer part of \<^verbatim>\<open>NUMBER_RE\<close>, \<^verbatim>\<open>-?(0|[1-9][0-9]*)\<close>: the digits matched and
  the text after them, or \<open>None\<close> where the expression does not match.
\<close>

definition match_integer :: "string \<Rightarrow> (string \<times> string) option" where
  "match_integer s =
     (case s of
        [] \<Rightarrow> None
      | c # r \<Rightarrow>
          if c = CHR ''0'' then Some ([c], r)
          else if is_digit c then Some (c # takeWhile is_digit r, dropWhile is_digit r)
          else None)"

text \<open>
  The rest of \<^verbatim>\<open>NUMBER_RE\<close>, \<^verbatim>\<open>(\.[0-9]+)?([eE][-+]?[0-9]+)?\<close>: whether a fraction
  or an exponent follows, which makes the number a float.
\<close>

definition float_follows :: "string \<Rightarrow> bool" where
  "float_follows s =
     (case s of
        c # d # r \<Rightarrow>
          (c = CHR ''.'' \<and> is_digit d)
          \<or> ((c = CHR ''e'' \<or> c = CHR ''E'')
              \<and> (is_digit d
                  \<or> ((d = CHR ''+'' \<or> d = CHR ''-'') \<and> (case r of [] \<Rightarrow> False | x # r' \<Rightarrow> is_digit x))))
      | _ \<Rightarrow> False)"

definition match_number :: "string \<Rightarrow> (error + (pyval \<times> string)) option" where
  "match_number s =
     (let negative = (case s of [] \<Rightarrow> False | c # r \<Rightarrow> c = CHR ''-'');
          s1 = (if negative then tl s else s)
      in case match_integer s1 of
           None \<Rightarrow> None
         | Some (ds, rest) \<Rightarrow>
             if float_follows rest then Some (Inl Unmodelled)
             else Some (Inr (PInt (if negative then - int (digits_val ds) else int (digits_val ds)), rest)))"

text \<open>\<^verbatim>\<open>dict(pairs)\<close>: a key met again keeps its place and takes the later value.\<close>

definition dict_of_pairs :: "(string \<times> pyval) list \<Rightarrow> (string \<times> pyval) list" where
  "dict_of_pairs pairs = foldl (\<lambda>d kv. dict_set (fst kv) (snd kv) d) [] pairs"

text \<open>
  \<^verbatim>\<open>scan_once\<close> with the loops of \<^verbatim>\<open>JSONArray\<close> and \<^verbatim>\<open>JSONObject\<close>. The first argument
  bounds the nested calls and loop rounds together, and \<open>OutOfFuel\<close> is the answer when
  it is used up; \<open>json_loads\<close> below starts with one more than twice the length of the
  text, which is shown to be enough for every text that \<^verbatim>\<open>json.dump\<close> writes. The
  recursion limit of the interpreter is not modelled.
\<close>

fun scan_once :: "nat \<Rightarrow> string \<Rightarrow> error + (pyval \<times> string)"
  and array_loop :: "nat \<Rightarrow> string \<Rightarrow> error + (pyval list \<times> string)"
  and object_loop :: "nat \<Rightarrow> string \<Rightarrow> error + ((string \<times> pyval) list \<times> string)"
where
  "scan_once 0 s = Inl OutOfFuel"
| "scan_once (Suc n) s =
     (case s of
        [] \<Rightarrow> Inl JSONDecodeError
      | c # cs \<Rightarrow>
          if c = CHR 0x22 then
            (case scanstring cs of
               Inl e \<Rightarrow> Inl e
             | Inr (str, rest) \<Rightarrow> Inr (PStr str, rest))
          else if c = CHR ''{'' then
            (case skip_ws cs of
               [] \<Rightarrow> Inl JSONDecodeError
             | d # ds \<Rightarrow>
                 if d = CHR ''}'' then Inr (PDict [], ds)
                 else
                   (case object_loop n (d # ds) of
                      Inl e \<Rightarrow> Inl e
                    | Inr (pairs, rest) \<Rightarrow> Inr (PDict (dict_of_pairs pairs), rest)))
          else if c = CHR ''['' then
            (case skip_ws cs of
               [] \<Rightarrow> Inl JSONDecodeError
             | d # ds \<Rightarrow>
                 if d = CHR '']'' then Inr (PList [], ds)
                 else
                   (case array_loop n (d # ds) of
                      Inl e \<Rightarrow> Inl e
                    | Inr (vals, rest) \<Rightarrow> Inr (PList vals, rest)))
          else if take 4 s = ''null'' then Inr (PNone, drop 4 s)
          else if take 4 s = ''true'' then Inr (PBool True, drop 4 s)
          else if take 5 s = ''false'' then Inr (PBool False, drop 5 s)
          else
            (case match_number s of
               Some r \<Rightarrow> r
             | None \<Rightarrow>
                 if take 3 s = ''NaN'' \<or> take 8 s = ''Infinity'' \<or> take 9 s = ''-Infinity''
                 then Inl Unmodelled
                 else Inl JSONDecodeError))"
| "array_loop 0 s = Inl OutOfFuel"
| "array_loop (Suc n) s =
     (case scan_once n s of
        Inl e \<Rightarrow> Inl e
      | Inr (v, rest) \<Rightarrow>
          (case skip_ws rest of
             [] \<Rightarrow> Inl JSONDecodeError
           | c # cs \<Rightarrow>
               if c = CHR '']'' then Inr ([v], cs)
               else if c = CHR '','' then
                 (case array_loop n (skip_ws cs) of
                    Inl e \<Rightarrow> Inl e
                  | Inr (vals, rest') \<Rightarrow> Inr (v # vals, rest'))
               else Inl JSONDecodeError))"
| "object_loop 0 s = Inl OutOfFuel"
| "object_loop (Suc n) s =
     (case s of
        [] \<Rightarrow> Inl JSONDecodeError
      | q # s1 \<Rightarrow>
          if q \<noteq> CHR 0x22 then Inl JSONDecodeError
          else
            (case scanstring s1 of
               Inl e \<Rightarrow> Inl e
             | Inr (key, s2) \<Rightarrow>
                 (case skip_ws s2 of
                    [] \<Rightarrow> Inl JSONDecodeError
                  | colon # s3 \<Rightarrow>
                      if colon \<noteq> CHR '':'' then Inl JSONDecodeError
                      else
                        (case scan_once n (skip_ws s3) of
                           Inl e \<Rightarrow> Inl e
                         | Inr (v, s4) \<Rightarrow>
                             (case skip_ws s4 of
                                [] \<Rightarrow> Inl JSONDecodeError
                              | c # cs \<Rightarrow>
                                  if c = CHR ''}'' then Inr ([(key, v)], cs)
                                  else if c = CHR '','' then
                                    (case object_loop n (skip_ws cs) of
                                       Inl e \<Rightarrow> Inl e
                                     | Inr (pairs, rest) \<Rightarrow> Inr ((key, v) # pairs, rest))
                                  else Inl JSONDecodeError)))))"

text \<open>
  \<^verbatim>\<open>json.loads\<close>: white space, one value, white space, and nothing more.
\<close>

definition json_loads :: "string \<Rightarrow> error + pyval" where
  "json_loads s =
     (case scan_once (Suc (2 * length s)) (skip_ws s) of
        Inl e \<Rightarrow> Inl e
      | Inr (obj, rest) \<Rightarrow> if skip_ws rest = [] then Inr obj else Inl JSONDecodeError)"

text \<open>
  \<^verbatim>\<open>json.load(f)\<close> on a file opened with \<^verbatim>\<open>encoding="utf-8"\<close>: ASCII text is its own
  decoding.
\<close>

definition json_load :: "string \<Rightarrow> error + pyval" where
  "json_load content =
     (if list_all (\<lambda>c. (of_char c :: nat) < 128) content then json_loads content
      else Inl Unmodelled)"

section \<open>Saving the manifest\<close>

text \<open>
  \<^verbatim>\<open>save_update_db_to_file_if_changed\<close> on a file system: the file system after the call,
  and either the line the call prints or the exception \<^verbatim>\<open>json.load\<close> raised.
\<close>

definition write_update_db ::
  "pyval \<Rightarrow> string \<Rightarrow> filesystem \<Rightarrow> filesystem \<times> (error + string)" where
  "write_update_db update_db file_path fs =
     (fs(file_path \<mapsto> json_dump update_db),
      Inr (''Update database saved to '' @ file_path @ ''.''))"

definition save_update_db_to_file_if_changed ::
  "pyval \<Rightarrow> string \<Rightarrow> filesystem \<Rightarrow> filesystem \<times> (error + string)" where
  "save_update_db_to_file_if_changed update_db file_path fs =
     (case fs file_path of
        Some content \<Rightarrow>
          (case json_load content of
             Inl err \<Rightarrow> (fs, Inl err)
           | Inr existing_db \<Rightarrow>
               if py_eq existing_db update_db
               then (fs, Inr ''No changes detected in the update database.'')
               else write_update_db update_db file_path fs)
      | None \<Rightarrow> write_update_db update_db file_path fs)"

section \<open>Vocabulary of the properties\<close>

text \<open>\<^verbatim>\<open>x[k1][k2]...\<close>: reading along a path of keys.\<close>

fun py_at :: "pyval \<Rightarrow> string list \<Rightarrow> error + pyval" where
  "py_at x [] = Inr x"
| "py_at x (k # ks) = (case py_getitem x k of Inl e \<Rightarrow> Inl e | Inr y \<Rightarrow> py_at y ks)"

text \<open>An asset object whose \<^verbatim>\<open>name\<close> is the given string.\<close>

fun asset_named :: "string \<Rightarrow> pyval \<Rightarrow> bool" where
  "asset_named name (PDict kvs) = (map_of kvs ''name'' = Some (PStr name))"
| "asset_named name _ = False"

fun is_dict :: "pyval \<Rightarrow> bool" where
  "is_dict (PDict kvs) = True"
| "is_dict _ = False"

text \<open>
  The paths of the manifest that \<^verbatim>\<open>generate_update_db\<close> assigns, and the paths of the
  static fields that the template fixes.
\<close>

definition fetched_fields :: "string list list" where
  "fetched_fields =
     [[''timestamp''],
      [''files'', ''Scripts/cloud_saves.sh'', ''size''],
      [''files'', ''Scripts/cloud_saves.sh'', ''hash''],
      [''files'', ''Scripts/cloud_saves.sh'', ''url''],
      [''files'', ''cloud_saves/updates/client.tar.xz'', ''size''],
      [''files'', ''cloud_saves/updates/client.tar.xz'', ''hash''],
      [''files'', ''cloud_saves/updates/client.tar.xz'', ''url'']]"

definition static_fields :: "string list list" where
  "static_fields =
     [[''v''], [''db_id''], [''folders''], [''tags_dictionary''],
      [''files'', ''Scripts/cloud_saves.sh'', ''tags''],
      [''files'', ''cloud_saves/updates/client.tar.xz'', ''tags''],
      [''files'', ''cloud_saves/updates/client.tar.xz'', ''reboot'']]"

text \<open>The path \<open>p\<close> is on the way to \<open>q\<close>: it is \<open>q\<close> or the start of it.\<close>

definition leads_to :: "string list \<Rightarrow> string list \<Rightarrow> bool" where
  "leads_to p q = (take (length p) q = p)"

text \<open>
  What follows a value in the text that \<^verbatim>\<open>json.dump\<close> writes: nothing, a comma, or a line
  break.
\<close>

definition value_end :: "string \<Rightarrow> bool" where
  "value_end rest = (case rest of [] \<Rightarrow> True | c # cs \<Rightarrow> c = CHR '','' \<or> c = CHR 0x0A)"

definition is_ascii :: "char \<Rightarrow> bool" where
  "is_ascii c = ((of_char c :: nat) < 128)"

subsection \<open>A concrete run\<close>

text \<open>
  A release with the client archive among its assets, the same release without a tag name,
  and a release whose only asset has another name. In \<open>example_env\<close> the first request is
  answered with the release, every later one with the 11 bytes \<^verbatim>\<open>hello world\<close> in two
  chunks.
\<close>

definition example_assets :: pyval where
  "example_assets =
     PList [PDict [(''name'', PStr ''client.tar.xz''),
                   (''browser_download_url'', PStr ''https://example/client.tar.xz'')]]"

definition example_release :: "(string \<times> pyval) list" where
  "example_release = [(''tag_name'', PStr ''v1.2.3''), (''assets'', example_assets)]"

definition example_untagged_release :: "(string \<times> pyval) list" where
  "example_untagged_release = [(''assets'', example_assets)]"

definition example_other_assets :: "pyval list" where
  "example_other_assets =
     [PDict [(''name'', PStr ''client.zip''),
             (''browser_download_url'', PStr ''https://example/client.zip'')]]"

definition example_release_without_client :: "(string \<times> pyval) list" where
  "example_release_without_client =
     [(''tag_name'', PStr ''v1.2.3''), (''assets'', PList example_other_assets)]"

definition example_release_response :: "(string \<times> pyval) list \<Rightarrow> response" where
  "example_release_response release =
     \<lparr>status_code = 200, json_body = Inr (PDict release), iter_content = [], stream_error = None\<rparr>"

definition example_fetch_response :: response where
  "example_fetch_response =
     \<lparr>status_code = 200, json_body = Inl JSONDecodeError,
      iter_content = [''hello '', ''world''], stream_error = None\<rparr>"

definition example_env :: "(string \<times> pyval) list \<Rightarrow> env" where
  "example_env release =
     \<lparr>http = (\<lambda>n url.
        if n = 0 then Inr (example_release_response release) else Inr example_fetch_response),
      clock = 1700000000,
      tmp_name = (\<lambda>n. ''/tmp/tmpfile'')\<rparr>"

definition example_manifest :: pyval where
  "example_manifest =
     PDict
      [(''v'', PInt 1),
       (''db_id'', PStr ''mister_cloud_saves''),
       (''timestamp'', PInt 1700000000),
       (''files'',
        PDict
         [(''Scripts/cloud_saves.sh'',
           PDict
            [(''size'', PInt 11),
             (''hash'', PStr (hexdigest (md5_update md5_new ''hello world''))),
             (''url'', PStr SCRIPT_RAW_URL),
             (''tags'', PList [PInt 1])]),
          (''cloud_saves/updates/client.tar.xz'',
           PDict
            [(''size'', PInt 11),
             (''hash'', PStr (hexdigest (md5_update md5_new ''hello world''))),
             (''url'', PStr ''https://example/client.tar.xz''),
             (''reboot'', PBool True),
             (''tags'', PList [PInt 0])])]),
       (''folders'',
        PDict [(''Scripts'', PDict []), (''cloud_saves'', PDict []), (''cloud_saves/updates'', PDict [])]),
       (''tags_dictionary'', PDict [(''cloudsaves'', PInt 0), (''scripts'', PInt 1)])]"

text \<open>A small document, for the text that is written and read back.\<close>

definition example_small_db :: pyval where
  "example_small_db = PDict [(''v'', PInt 1), (''tags'', PList [PInt 0, PStr ''a b''])]"

section \<open>The release locator: properties\<close>

lemma py_eq_PStr_right: "py_eq x (PStr s) = (x = PStr s)"
  by (cases x) auto

lemma assets_loop_no_match:
  "\<not> list_ex (asset_named ''client.tar.xz'') items \<Longrightarrow> assets_loop t items \<noteq> Inr (Some r)"
proof (induction items)
  case Nil
  then show ?case by simp
next
  case (Cons a items)
  then show ?case
    by (cases a) (auto simp: py_eq_PStr_right split: option.splits)
qed

lemma assets_loop_dicts:
  "\<not> list_ex (asset_named ''client.tar.xz'') items \<Longrightarrow> list_all is_dict items
    \<Longrightarrow> assets_loop t items = Inr None"
proof (induction items)
  case Nil
  then show ?case by simp
next
  case (Cons a items)
  then show ?case
    by (cases a) (auto simp: py_eq_PStr_right split: option.splits)
qed

lemma assets_loop_tag:
  "assets_loop t items =
     (case assets_loop t' items of
        Inl e \<Rightarrow> Inl e
      | Inr None \<Rightarrow> Inr None
      | Inr (Some (u, x)) \<Rightarrow> Inr (Some (u, t)))"
  by (induction items) (auto split: sum.splits)

lemma locator_example:
  "get_tag_and_latest_release_url (example_env example_release)
     = Inr (PStr ''https://example/client.tar.xz'', PStr ''v1.2.3'')"
  by (simp add: get_tag_and_latest_release_url_def requests_get_def example_env_def
      example_release_response_def example_release_def example_assets_def)

lemma locator_example_untagged:
  "get_tag_and_latest_release_url (example_env example_untagged_release)
     = Inr (PStr ''https://example/client.tar.xz'', PStr ''unknown'')"
  by (simp add: get_tag_and_latest_release_url_def requests_get_def example_env_def
      example_release_response_def example_untagged_release_def example_assets_def)

text \<open>
  C1, as the code has it. When the request succeeds and no asset of the release is named
  \<^verbatim>\<open>client.tar.xz\<close>, the locator does not return to its caller, whatever pair \<open>r\<close> one
  expects; when the assets are objects, as the release API sends them, the loop runs to its
  end and the run stops with the message of the failed fetch and exit status 1.
\<close>

theorem locator_without_asset_exits:
  assumes "http e 0 GH_REPO_API_URL = Inr response"
    and "status_code response = 200"
    and "json_body response = Inr (PDict data)"
    and "py_get (PDict data) ''assets'' (PList []) = Inr (PList assets)"
    and "\<not> list_ex (asset_named ''client.tar.xz'') assets"
  shows "get_tag_and_latest_release_url e \<noteq> Inr r
    \<and> (list_all is_dict assets \<longrightarrow>
         get_tag_and_latest_release_url e = Inl (SystemExit ''Error fetching latest release info'' 1))"
proof -
  have nr: "assets_loop t assets \<noteq> Inr (Some r')" for t r'
    using assms(5) by (rule assets_loop_no_match)
  have a: "get_tag_and_latest_release_url e \<noteq> Inr r"
    using assms(1-4) nr
    by (auto simp: get_tag_and_latest_release_url_def requests_get_def release_info_exit_def
        split: sum.splits option.splits)
  have b: "get_tag_and_latest_release_url e = Inl (SystemExit ''Error fetching latest release info'' 1)"
    if "list_all is_dict assets"
    using assms(1-4) assets_loop_dicts [OF assms(5) that]
    by (auto simp: get_tag_and_latest_release_url_def requests_get_def release_info_exit_def
        split: sum.splits option.splits)
  from a b show ?thesis by blast
qed

theorem locator_without_asset_exits_witness:
  "http (example_env example_release_without_client) 0 GH_REPO_API_URL
     = Inr (example_release_response example_release_without_client)
   \<and> status_code (example_release_response example_release_without_client) = 200
   \<and> json_body (example_release_response example_release_without_client)
       = Inr (PDict example_release_without_client)
   \<and> py_get (PDict example_release_without_client) ''assets'' (PList [])
       = Inr (PList example_other_assets)
   \<and> \<not> list_ex (asset_named ''client.tar.xz'') example_other_assets
   \<and> list_all is_dict example_other_assets
   \<and> get_tag_and_latest_release_url (example_env example_release_without_client) \<noteq> Inr (PNone, PNone)
   \<and> get_tag_and_latest_release_url (example_env example_release_without_client)
       = Inl (SystemExit ''Error fetching latest release info'' 1)"
proof -
  have h1: "http (example_env example_release_without_client) 0 GH_REPO_API_URL
     = Inr (example_release_response example_release_without_client)"
    by (simp add: example_env_def)
  have h2: "status_code (example_release_response example_release_without_client) = 200"
    by (simp add: example_release_response_def)
  have h3: "json_body (example_release_response example_release_without_client)
       = Inr (PDict example_release_without_client)"
    by (simp add: example_release_response_def)
  have h4: "py_get (PDict example_release_without_client) ''assets'' (PList [])
       = Inr (PList example_other_assets)"
    by (simp add: example_release_without_client_def)
  have h5: "\<not> list_ex (asset_named ''client.tar.xz'') example_other_assets"
    by (simp add: example_other_assets_def)
  have h6: "list_all is_dict example_other_assets"
    by (simp add: example_other_assets_def)
  from locator_without_asset_exits [OF h1 h2 h3 h4 h5, of "(PNone, PNone)"] h1 h2 h3 h4 h5 h6
  show ?thesis by blast
qed

text \<open>
  C1 as the specification words it fails: on a successful response without the asset the
  locator does not hand back a pair of \<^verbatim>\<open>None\<close> values, it exits.
\<close>

theorem locator_without_asset_counterexample:
  "get_tag_and_latest_release_url (example_env example_release_without_client) \<noteq> Inr (PNone, PNone)
   \<and> get_tag_and_latest_release_url (example_env example_release_without_client)
       = Inl (SystemExit ''Error fetching latest release info'' 1)"
  by (simp add: get_tag_and_latest_release_url_def requests_get_def release_info_exit_def
      example_env_def example_release_response_def example_release_without_client_def
      example_other_assets_def)

section \<open>Fetching and hashing: properties\<close>

lemma foldl_file_write:
  "fs p = Some c \<Longrightarrow> foldl (\<lambda>f chunk. file_write f p chunk) fs chunks p = Some (c @ concat chunks)"
  by (induction chunks arbitrary: fs c) (simp_all add: file_write_def)

lemma md5_update_Nil: "md5_update h [] = h"
  by (simp add: md5_update_def)

lemma md5_update_append: "md5_update (md5_update h a) b = md5_update h (a @ b)"
  by (simp add: md5_update_def)

lemma foldl_md5_update: "foldl md5_update h chunks = md5_update h (concat chunks)"
  by (induction chunks arbitrary: h) (simp_all add: md5_update_Nil md5_update_append)

lemma read_loop_eq: "read_loop h content = md5_update h content"
proof (induction h content rule: read_loop.induct)
  case (1 hash_func unread)
  show ?case
  proof (cases "take 8192 unread = []")
    case True
    then have "unread = []" by simp
    then show ?thesis by (simp add: read_loop.simps md5_update_Nil)
  next
    case False
    then have "read_loop hash_func unread =
        md5_update (md5_update hash_func (take 8192 unread)) (drop 8192 unread)"
      using "1.IH" [OF refl False] by (subst read_loop.simps) simp
    then show ?thesis by (simp add: md5_update_append)
  qed
qed

lemma get_file_hash_and_size_eq:
  "get_file_hash_and_size e n fs url =
     (case requests_get e n url of
        Inl err \<Rightarrow> Inl err
      | Inr r \<Rightarrow>
          if status_code r = 200 then
            (case stream_error r of
               Some err \<Rightarrow> Inl err
             | None \<Rightarrow>
                 Inr (length (concat (iter_content r)),
                      hexdigest (md5_update md5_new (concat (iter_content r)))))
          else Inl (SystemExit ''Error downloading client file'' 1))"
proof -
  have w: "foldl (\<lambda>f chunk. file_write f p chunk) (fs(p \<mapsto> [])) chunks p = Some (concat chunks)"
    for p chunks
    using foldl_file_write [of "fs(p \<mapsto> [])" p "[]" chunks] by simp
  show ?thesis
    by (simp add: get_file_hash_and_size_def Let_def w getsize_def compute_file_hash_def
        hashlib_new_def read_loop_eq split: sum.splits option.splits)
qed

lemma get_file_hash_and_size_url:
  "get_file_hash_and_size e n fs url = Inr r \<Longrightarrow> \<exists>u. url = PStr u"
  by (cases url) (simp_all add: get_file_hash_and_size_eq requests_get_def)

lemma fetch_example:
  "0 < n \<Longrightarrow> get_file_hash_and_size (example_env release) n fs (PStr u)
     = Inr (11, hexdigest (md5_update md5_new ''hello world''))"
  by (simp add: get_file_hash_and_size_eq requests_get_def example_env_def
      example_fetch_response_def)

section \<open>The manifest: properties\<close>

lemma generate_update_db_result:
  assumes "generate_update_db e fs = Inr doc"
  shows "\<exists>s1 h1 s2 h2 u2. doc =
     PDict
      [(''v'', PInt 1),
       (''db_id'', PStr ''mister_cloud_saves''),
       (''timestamp'', PInt (clock e)),
       (''files'',
        PDict
         [(''Scripts/cloud_saves.sh'',
           PDict
            [(''size'', PInt (int s1)),
             (''hash'', PStr h1),
             (''url'', PStr SCRIPT_RAW_URL),
             (''tags'', PList [PInt 1])]),
          (''cloud_saves/updates/client.tar.xz'',
           PDict
            [(''size'', PInt (int s2)),
             (''hash'', PStr h2),
             (''url'', PStr u2),
             (''reboot'', PBool True),
             (''tags'', PList [PInt 0])])]),
       (''folders'',
        PDict [(''Scripts'', PDict []), (''cloud_saves'', PDict []), (''cloud_saves/updates'', PDict [])]),
       (''tags_dictionary'', PDict [(''cloudsaves'', PInt 0), (''scripts'', PInt 1)])]"
proof -
  from assms obtain url s1 h1 s2 h2 db2 where
    f1: "get_file_hash_and_size e 1 fs (PStr SCRIPT_RAW_URL) = Inr (s1, h1)" and
    f2: "get_file_hash_and_size e 2 fs url = Inr (s2, h2)" and
    d2: "set_file_info (PDict (dict_set ''timestamp'' (PInt (clock e))
           (case get_update_db_schema of PDict kvs \<Rightarrow> kvs)))
          ''Scripts/cloud_saves.sh'' s1 h1 (PStr SCRIPT_RAW_URL) = Inr db2" and
    d3: "set_file_info db2 ''cloud_saves/updates/client.tar.xz'' s2 h2 url = Inr doc"
    by (auto simp: generate_update_db_def get_update_db_schema_def split: sum.splits prod.splits)
  from get_file_hash_and_size_url [OF f2] obtain u2 where u: "url = PStr u2" by blast
  from d2 have "db2 = PDict
      [(''v'', PInt 1),
       (''db_id'', PStr ''mister_cloud_saves''),
       (''timestamp'', PInt (clock e)),
       (''files'',
        PDict
         [(''Scripts/cloud_saves.sh'',
           PDict
            [(''size'', PInt (int s1)),
             (''hash'', PStr h1),
             (''url'', PStr SCRIPT_RAW_URL),
             (''tags'', PList [PInt 1])]),
          (''cloud_saves/updates/client.tar.xz'',
           PDict
            [(''size'', PInt 0),
             (''hash'', PStr []),
             (''url'', PStr []),
             (''reboot'', PBool True),
             (''tags'', PList [PInt 0])])]),
       (''folders'',
        PDict [(''Scripts'', PDict []), (''cloud_saves'', PDict []), (''cloud_saves/updates'', PDict [])]),
       (''tags_dictionary'', PDict [(''cloudsaves'', PInt 0), (''scripts'', PInt 1)])]"
    by (simp add: set_file_info_def get_update_db_schema_def)
  with d3 u show ?thesis
    by (simp add: set_file_info_def) blast
qed

lemma clock_example: "clock (example_env release) = 1700000000"
  by (simp add: example_env_def)

lemma generate_example:
  "generate_update_db (example_env example_release) fs = Inr example_manifest"
  by (simp add: generate_update_db_def locator_example fetch_example set_file_info_def
      get_update_db_schema_def example_manifest_def clock_example)

text \<open>
  C8. In every manifest that \<^verbatim>\<open>generate_update_db\<close> returns, the files mapping has the two
  fixed paths and no other, each file entry has a list of tags, and each tag is an integer
  that occurs as a value of the tag dictionary.
\<close>

theorem manifest_tags_and_paths:
  assumes "generate_update_db e fs = Inr doc"
  shows "\<exists>files tagdict.
     py_getitem doc ''files'' = Inr (PDict files)
     \<and> py_getitem doc ''tags_dictionary'' = Inr (PDict tagdict)
     \<and> map fst files = [''Scripts/cloud_saves.sh'', ''cloud_saves/updates/client.tar.xz'']
     \<and> (\<forall>entry \<in> set (map snd files). \<exists>tags.
           py_getitem entry ''tags'' = Inr (PList tags)
           \<and> (\<forall>t \<in> set tags. (\<exists>i. t = PInt i) \<and> t \<in> set (map snd tagdict)))"
  using generate_update_db_result [OF assms] by auto

theorem manifest_tags_and_paths_witness:
  "generate_update_db (example_env example_release) Map.empty = Inr example_manifest
   \<and> (\<exists>files tagdict.
     py_getitem example_manifest ''files'' = Inr (PDict files)
     \<and> py_getitem example_manifest ''tags_dictionary'' = Inr (PDict tagdict)
     \<and> map fst files = [''Scripts/cloud_saves.sh'', ''cloud_saves/updates/client.tar.xz'']
     \<and> (\<forall>entry \<in> set (map snd files). \<exists>tags.
           py_getitem entry ''tags'' = Inr (PList tags)
           \<and> (\<forall>t \<in> set tags. (\<exists>i. t = PInt i) \<and> t \<in> set (map snd tagdict))))"
  using manifest_tags_and_paths [OF generate_example [of Map.empty]]
    generate_example [of Map.empty] by blast

lemma py_at_leaf:
  "ks \<noteq> [] \<Longrightarrow> py_at (PInt i) ks = Inl TypeError"
  "ks \<noteq> [] \<Longrightarrow> py_at (PStr s) ks = Inl TypeError"
  "ks \<noteq> [] \<Longrightarrow> py_at (PBool b) ks = Inl TypeError"
  "ks \<noteq> [] \<Longrightarrow> py_at (PList xs) ks = Inl TypeError"
  by (cases ks; simp)+

lemma py_at_PDict:
  "py_at (PDict kvs) (k # ks) =
     (case map_of kvs k of None \<Rightarrow> Inl KeyError | Some v \<Rightarrow> py_at v ks)"
  by (simp split: option.splits)

lemma py_at_entry:
  assumes "\<not> leads_to (f # ks) [''size'']" "\<not> leads_to (f # ks) [''hash'']" "\<not> leads_to (f # ks) [''url'']"
  shows "py_at (PDict ([(''size'', PInt a), (''hash'', PStr b), (''url'', PStr c)] @ others)) (f # ks) =
         py_at (PDict ([(''size'', PInt a'), (''hash'', PStr b'), (''url'', PStr c')] @ others)) (f # ks)"
  using assms by (cases ks) (auto simp: leads_to_def)

text \<open>
  C9. A manifest that \<^verbatim>\<open>generate_update_db\<close> returns reads as the template does at every
  static field: the version, the database id, the folders, the tag dictionary, the tags of
  both file entries and the reboot flag of the client entry. More than that, it reads as
  the template does along every path of keys that is not on the way to one of the seven
  assigned fields (the timestamp and the size, hash and url of the two entries); so nothing
  else was changed, added or removed.
\<close>

theorem manifest_static_fields:
  assumes "generate_update_db e fs = Inr doc"
  shows "(\<forall>p \<in> set static_fields. py_at doc p = py_at get_update_db_schema p)
    \<and> (\<forall>p. (\<forall>q \<in> set fetched_fields. \<not> leads_to p q) \<longrightarrow> py_at doc p = py_at get_update_db_schema p)"
proof -
  from generate_update_db_result [OF assms] obtain s1 h1 s2 h2 u2 where doc: "doc =
     PDict
      [(''v'', PInt 1),
       (''db_id'', PStr ''mister_cloud_saves''),
       (''timestamp'', PInt (clock e)),
       (''files'',
        PDict
         [(''Scripts/cloud_saves.sh'',
           PDict
            [(''size'', PInt (int s1)),
             (''hash'', PStr h1),
             (''url'', PStr SCRIPT_RAW_URL),
             (''tags'', PList [PInt 1])]),
          (''cloud_saves/updates/client.tar.xz'',
           PDict
            [(''size'', PInt (int s2)),
             (''hash'', PStr h2),
             (''url'', PStr u2),
             (''reboot'', PBool True),
             (''tags'', PList [PInt 0])])]),
       (''folders'',
        PDict [(''Scripts'', PDict []), (''cloud_saves'', PDict []), (''cloud_saves/updates'', PDict [])]),
       (''tags_dictionary'', PDict [(''cloudsaves'', PInt 0), (''scripts'', PInt 1)])]"
    by blast
  have a: "\<forall>p \<in> set static_fields. py_at doc p = py_at get_update_db_schema p"
    by (simp add: doc static_fields_def get_update_db_schema_def)
  have b: "py_at doc p = py_at get_update_db_schema p"
    if h0: "\<forall>q \<in> set fetched_fields. \<not> leads_to p q" for p
  proof (cases p)
    have h: "\<not> leads_to p [''timestamp'']"
      "\<not> leads_to p [''files'', ''Scripts/cloud_saves.sh'', ''size'']"
      "\<not> leads_to p [''files'', ''Scripts/cloud_saves.sh'', ''hash'']"
      "\<not> leads_to p [''files'', ''Scripts/cloud_saves.sh'', ''url'']"
      "\<not> leads_to p [''files'', ''cloud_saves/updates/client.tar.xz'', ''size'']"
      "\<not> leads_to p [''files'', ''cloud_saves/updates/client.tar.xz'', ''hash'']"
      "\<not> leads_to p [''files'', ''cloud_saves/updates/client.tar.xz'', ''url'']"
      using h0 by (simp_all add: fetched_fields_def)
    {
    case Nil
    with h(1) show ?thesis by (simp add: leads_to_def)
  next
    case p: (Cons k ks)
    show ?thesis
    proof (cases "k = ''files''")
      case False
      with h show ?thesis
        unfolding p doc get_update_db_schema_def py_at_PDict
        by (cases ks) (auto simp: leads_to_def)
    next
      case files: True
      show ?thesis
      proof (cases ks)
        case Nil
        with h(2) files p show ?thesis by (simp add: leads_to_def)
      next
        case ks: (Cons path fs)
        show ?thesis
        proof (cases fs)
          case Nil
          with h(2,5) files p ks show ?thesis
            by (simp add: leads_to_def doc get_update_db_schema_def)
        next
          case fs: (Cons f rest)
          have n: "\<not> leads_to (f # rest) [''size'']" "\<not> leads_to (f # rest) [''hash'']"
            "\<not> leads_to (f # rest) [''url'']"
            if "path = ''Scripts/cloud_saves.sh'' \<or> path = ''cloud_saves/updates/client.tar.xz''"
            using h that unfolding p files ks fs
            by (auto simp: leads_to_def)
          show ?thesis
            unfolding p files ks fs doc get_update_db_schema_def py_at_PDict
            using n py_at_entry [of f rest _ _ _ "[(''tags'', PList [PInt 1])]"]
              py_at_entry [of f rest _ _ _ "[(''reboot'', PBool True), (''tags'', PList [PInt 0])]"]
            by simp
        qed
      qed
    qed
    }
  qed
  from a b show ?thesis by blast
qed

theorem manifest_static_fields_witness:
  "generate_update_db (example_env example_release) Map.empty = Inr example_manifest
   \<and> py_at example_manifest [''v''] = py_at get_update_db_schema [''v'']
   \<and> py_at example_manifest [''db_id''] = py_at get_update_db_schema [''db_id'']
   \<and> py_at example_manifest [''folders''] = py_at get_update_db_schema [''folders'']
   \<and> py_at example_manifest [''tags_dictionary''] = py_at get_update_db_schema [''tags_dictionary'']
   \<and> py_at example_manifest [''files'', ''Scripts/cloud_saves.sh'', ''tags'']
       = py_at get_update_db_schema [''files'', ''Scripts/cloud_saves.sh'', ''tags'']
   \<and> py_at example_manifest [''files'', ''cloud_saves/updates/client.tar.xz'', ''tags'']
       = py_at get_update_db_schema [''files'', ''cloud_saves/updates/client.tar.xz'', ''tags'']
   \<and> py_at example_manifest [''files'', ''cloud_saves/updates/client.tar.xz'', ''reboot'']
       = py_at get_update_db_schema [''files'', ''cloud_saves/updates/client.tar.xz'', ''reboot'']
   \<and> py_at example_manifest [''files'', ''cloud_saves/updates/client.tar.xz'', ''reboot'']
       = Inr (PBool True)
   \<and> list_all (\<lambda>q. \<not> leads_to [''folders'', ''Scripts''] q) fetched_fields
   \<and> py_at example_manifest [''folders'', ''Scripts'']
       = py_at get_update_db_schema [''folders'', ''Scripts'']
   \<and> py_at example_manifest [''folders'', ''Scripts''] = Inr (PDict [])"
proof -
  note g = generate_example [of Map.empty]
  note t = manifest_static_fields [OF g]
  have s: "py_at example_manifest p = py_at get_update_db_schema p" if "p \<in> set static_fields" for p
    using t that by blast
  have l: "list_all (\<lambda>q. \<not> leads_to [''folders'', ''Scripts''] q) fetched_fields"
    by (simp add: fetched_fields_def leads_to_def)
  then have "\<forall>q \<in> set fetched_fields. \<not> leads_to [''folders'', ''Scripts''] q"
    by (simp only: list_all_iff)
  with t have f: "py_at example_manifest [''folders'', ''Scripts'']
       = py_at get_update_db_schema [''folders'', ''Scripts'']"
    by blast
  have r: "py_at example_manifest [''files'', ''cloud_saves/updates/client.tar.xz'', ''reboot'']
       = Inr (PBool True)"
    by (simp add: example_manifest_def)
  have e: "py_at example_manifest [''folders'', ''Scripts''] = Inr (PDict [])"
    by (simp add: example_manifest_def)
  show ?thesis
    using g l f r e
      s [of "[''v'']"] s [of "[''db_id'']"] s [of "[''folders'']"] s [of "[''tags_dictionary'']"]
      s [of "[''files'', ''Scripts/cloud_saves.sh'', ''tags'']"]
      s [of "[''files'', ''cloud_saves/updates/client.tar.xz'', ''tags'']"]
      s [of "[''files'', ''cloud_saves/updates/client.tar.xz'', ''reboot'']"]
    by (simp add: static_fields_def)
qed

lemma locator_eq:
  assumes "http e 0 GH_REPO_API_URL = Inr r" "status_code r = 200" "json_body r = Inr (PDict d)"
  shows "get_tag_and_latest_release_url e =
     (case py_iter (case map_of d ''assets'' of None \<Rightarrow> PList [] | Some a \<Rightarrow> a) of
        Inl err \<Rightarrow> Inl err
      | Inr items \<Rightarrow>
          (case assets_loop PNone items of
             Inl err \<Rightarrow> Inl err
           | Inr None \<Rightarrow> release_info_exit
           | Inr (Some (u, x)) \<Rightarrow>
               Inr (u, case map_of d ''tag_name'' of None \<Rightarrow> PStr ''unknown'' | Some t \<Rightarrow> t)))"
  using assms
  by (simp add: get_tag_and_latest_release_url_def requests_get_def
      assets_loop_tag [of "case map_of d ''tag_name'' of None \<Rightarrow> PStr ''unknown'' | Some t \<Rightarrow> t" _ PNone]
      split: sum.splits option.splits prod.splits)

lemma get_file_hash_and_size_cong:
  "http e1 n = http e2 n \<Longrightarrow>
     get_file_hash_and_size e1 n fs1 url = get_file_hash_and_size e2 n fs2 url"
  by (cases url) (simp_all add: get_file_hash_and_size_eq requests_get_def)

text \<open>
  C10. The manifest does not depend on the tag name of the release. Let two runs receive
  successful release responses whose JSON objects agree on every key but \<^verbatim>\<open>tag_name\<close>
  (which may be absent from either), the same answers to the two fetches and the same
  clock value: then \<^verbatim>\<open>generate_update_db\<close> has the same outcome in both, whatever the file
  systems. And where \<^verbatim>\<open>tag_name\<close> is absent, the tag the locator returns is the string
  \<^verbatim>\<open>unknown\<close>.
\<close>

theorem manifest_independent_of_tag:
  assumes "http e1 0 GH_REPO_API_URL = Inr r1" and "http e2 0 GH_REPO_API_URL = Inr r2"
    and "status_code r1 = 200" and "status_code r2 = 200"
    and "json_body r1 = Inr (PDict d1)" and "json_body r2 = Inr (PDict d2)"
    and "\<forall>k. k \<noteq> ''tag_name'' \<longrightarrow> map_of d1 k = map_of d2 k"
    and "http e1 1 = http e2 1" and "http e1 2 = http e2 2" and "clock e1 = clock e2"
  shows "generate_update_db e1 fs1 = generate_update_db e2 fs2
    \<and> (map_of d1 ''tag_name'' = None \<longrightarrow>
         (\<forall>url tag. get_tag_and_latest_release_url e1 = Inr (url, tag) \<longrightarrow> tag = PStr ''unknown''))"
proof -
  have assets: "map_of d1 ''assets'' = map_of d2 ''assets''"
    using assms(7) by simp
  note l1 = locator_eq [OF assms(1,3,5)] and l2 = locator_eq [OF assms(2,4,6)]
  have loc: "(case get_tag_and_latest_release_url e1 of Inl err \<Rightarrow> Inl err | Inr (u, t) \<Rightarrow> G u)
      = (case get_tag_and_latest_release_url e2 of Inl err \<Rightarrow> Inl err | Inr (u, t) \<Rightarrow> G u)"
    for G :: "pyval \<Rightarrow> error + pyval"
    unfolding l1 l2 assets
    by (simp add: release_info_exit_def split: sum.splits option.splits prod.splits)
  have f1: "get_file_hash_and_size e1 1 fs1 u = get_file_hash_and_size e2 1 fs2 u" for u
    using assms(8) by (rule get_file_hash_and_size_cong)
  have f2: "get_file_hash_and_size e1 2 fs1 u = get_file_hash_and_size e2 2 fs2 u" for u
    using assms(9) by (rule get_file_hash_and_size_cong)
  have a: "generate_update_db e1 fs1 = generate_update_db e2 fs2"
    unfolding generate_update_db_def f1 f2 assms(10) by (rule loc)
  have b: "tag = PStr ''unknown''"
    if "map_of d1 ''tag_name'' = None" "get_tag_and_latest_release_url e1 = Inr (url, tag)"
    for url tag
    using that unfolding l1
    by (auto simp: release_info_exit_def split: sum.splits option.splits prod.splits)
  from a b show ?thesis by blast
qed

theorem manifest_independent_of_tag_witness:
  "http (example_env example_untagged_release) 0 GH_REPO_API_URL
     = Inr (example_release_response example_untagged_release)
   \<and> http (example_env example_release) 0 GH_REPO_API_URL
       = Inr (example_release_response example_release)
   \<and> status_code (example_release_response example_untagged_release) = 200
   \<and> status_code (example_release_response example_release) = 200
   \<and> json_body (example_release_response example_untagged_release)
       = Inr (PDict example_untagged_release)
   \<and> json_body (example_release_response example_release) = Inr (PDict example_release)
   \<and> filter (\<lambda>kv. fst kv \<noteq> ''tag_name'') example_untagged_release
       = filter (\<lambda>kv. fst kv \<noteq> ''tag_name'') example_release
   \<and> http (example_env example_untagged_release) 1 = http (example_env example_release) 1
   \<and> http (example_env example_untagged_release) 2 = http (example_env example_release) 2
   \<and> clock (example_env example_untagged_release) = clock (example_env example_release)
   \<and> map_of example_untagged_release ''tag_name'' = None
   \<and> get_tag_and_latest_release_url (example_env example_untagged_release)
       = Inr (PStr ''https://example/client.tar.xz'', PStr ''unknown'')
   \<and> generate_update_db (example_env example_untagged_release) Map.empty
       = generate_update_db (example_env example_release) Map.empty
   \<and> generate_update_db (example_env example_release) Map.empty = Inr example_manifest"
proof -
  have h1: "http (example_env example_untagged_release) 0 GH_REPO_API_URL
     = Inr (example_release_response example_untagged_release)"
    by (simp add: example_env_def)
  have h2: "http (example_env example_release) 0 GH_REPO_API_URL
       = Inr (example_release_response example_release)"
    by (simp add: example_env_def)
  have h3: "status_code (example_release_response example_untagged_release) = 200"
    by (simp add: example_release_response_def)
  have h4: "status_code (example_release_response example_release) = 200"
    by (simp add: example_release_response_def)
  have h5: "json_body (example_release_response example_untagged_release)
       = Inr (PDict example_untagged_release)"
    by (simp add: example_release_response_def)
  have h6: "json_body (example_release_response example_release) = Inr (PDict example_release)"
    by (simp add: example_release_response_def)
  have h7: "\<forall>k. k \<noteq> ''tag_name'' \<longrightarrow> map_of example_untagged_release k = map_of example_release k"
    by (simp add: example_untagged_release_def example_release_def)
  have h8: "http (example_env example_untagged_release) 1 = http (example_env example_release) 1"
    by (simp add: example_env_def)
  have h9: "http (example_env example_untagged_release) 2 = http (example_env example_release) 2"
    by (simp add: example_env_def)
  have h10: "clock (example_env example_untagged_release) = clock (example_env example_release)"
    by (simp add: example_env_def)
  have h11: "map_of example_untagged_release ''tag_name'' = None"
    by (simp add: example_untagged_release_def)
  have h12: "filter (\<lambda>kv. fst kv \<noteq> ''tag_name'') example_untagged_release
       = filter (\<lambda>kv. fst kv \<noteq> ''tag_name'') example_release"
    by (simp add: example_untagged_release_def example_release_def)
  from manifest_independent_of_tag [OF h1 h2 h3 h4 h5 h6 h7 h8 h9 h10, of Map.empty Map.empty]
    h1 h2 h3 h4 h5 h6 h8 h9 h10 h11 h12 locator_example_untagged generate_example [of Map.empty]
  show ?thesis by blast
qed

section \<open>The digest of a fetched file\<close>

text \<open>
  The MD5 of the 11 bytes \<^verbatim>\<open>hello world\<close>, step by step: the bytes are buffered, the
  padding completes one block, the block is compressed, and the registers are written out.
\<close>

lemma replicate_numeral: "replicate (numeral k) x = x # replicate (pred_numeral k) x"
  by (simp add: numeral_eq_Suc)

lemma md5_hello_absorb:
  "md5_update md5_new ''hello world'' =
     \<lparr>regs = (0x67452301, 0xefcdab89, 0x98badcfe, 0x10325476),
      pending = [104, 101, 108, 108, 111, 32, 119, 111, 114, 108, 100], nbits = 88\<rparr>"
  by (simp add: md5_update_def update_byte_def md5_new_def)

lemma md5_hello_padding:
  "md5_padding \<lparr>regs = r,
      pending = [104, 101, 108, 108, 111, 32, 119, 111, 114, 108, 100], nbits = 88\<rparr> =
     [128, 0, 0, 0, 0, 0, 0, 0, 0, 0, 0, 0, 0, 0, 0, 0, 0, 0, 0, 0, 0, 0, 0,
      0, 0, 0, 0, 0, 0, 0, 0, 0, 0, 0, 0, 0, 0, 0, 0, 0, 0, 0, 0, 0, 0, 88,
      0, 0, 0, 0, 0, 0, 0]"
  by (simp add: md5_padding_def le_bytes8_def replicate_numeral)

lemma md5_hello_block:
  "regs (foldl update_byte
      \<lparr>regs = r, pending = [104, 101, 108, 108, 111, 32, 119, 111, 114, 108, 100], nbits = 88\<rparr>
     [128, 0, 0, 0, 0, 0, 0, 0, 0, 0, 0, 0, 0, 0, 0, 0, 0, 0, 0, 0, 0, 0, 0,
      0, 0, 0, 0, 0, 0, 0, 0, 0, 0, 0, 0, 0, 0, 0, 0, 0, 0, 0, 0, 0, 0, 88,
      0, 0, 0, 0, 0, 0, 0]) =
   md5_compress r
     [104, 101, 108, 108, 111, 32, 119, 111, 114, 108, 100, 128, 0, 0, 0,
      0, 0, 0, 0, 0, 0, 0, 0, 0, 0, 0, 0, 0, 0, 0, 0, 0, 0, 0, 0, 0, 0,
      0, 0, 0, 0, 0, 0, 0, 0, 0, 0, 0, 0, 0, 0, 0, 0, 0, 0, 0, 88, 0, 0,
      0, 0, 0, 0, 0]"
  by (simp add: update_byte_def)

lemma md5_hello_compress:
  "md5_compress (0x67452301, 0xefcdab89, 0x98badcfe, 0x10325476)
     [104, 101, 108, 108, 111, 32, 119, 111, 114, 108, 100, 128, 0, 0, 0,
      0, 0, 0, 0, 0, 0, 0, 0, 0, 0, 0, 0, 0, 0, 0, 0, 0, 0, 0, 0, 0, 0,
      0, 0, 0, 0, 0, 0, 0, 0, 0, 0, 0, 0, 0, 0, 0, 0, 0, 0, 0, 88, 0, 0,
      0, 0, 0, 0, 0] = (0xbb3bb65e, 0xd0ee1ee0, 0xbb22cb93, 0xc3cd5a8f)"
  by (simp add: md5_compress_def md5_rounds.simps md5_round_def md5_K_def md5_S_def rotl32_def)

lemma md5_hello_hex:
  "concat (map hex_byte (concat (map le_bytes4 [0xbb3bb65e, 0xd0ee1ee0, 0xbb22cb93, 0xc3cd5a8f])))
     = ''5eb63bbbe01eeed093cb22bb8f5acdc3''"
  by (simp add: hex_byte_def hex_digit_def le_bytes4_def)

lemma hexdigest_hello_world:
  "hexdigest (md5_update md5_new ''hello world'') = ''5eb63bbbe01eeed093cb22bb8f5acdc3''"
  unfolding hexdigest_def md5_digest_def md5_hello_absorb md5_hello_padding md5_hello_block
    md5_hello_compress
  using md5_hello_hex by simp

text \<open>
  C4. A successful fetch whose body is the 11 bytes \<^verbatim>\<open>hello world\<close>, in whatever chunks
  they arrive, reports the size 11 and the MD5 digest of these bytes in lowercase
  hexadecimal digits.
\<close>

theorem fetch_hello_world:
  assumes "requests_get e n url = Inr response"
    and "status_code response = 200"
    and "stream_error response = None"
    and "concat (iter_content response) = ''hello world''"
  shows "get_file_hash_and_size e n fs url = Inr (11, ''5eb63bbbe01eeed093cb22bb8f5acdc3'')"
  using assms by (simp add: get_file_hash_and_size_eq hexdigest_hello_world)

theorem fetch_hello_world_witness:
  "requests_get (example_env example_release) 1 (PStr SCRIPT_RAW_URL) = Inr example_fetch_response
   \<and> status_code example_fetch_response = 200
   \<and> stream_error example_fetch_response = None
   \<and> concat (iter_content example_fetch_response) = ''hello world''
   \<and> get_file_hash_and_size (example_env example_release) 1 Map.empty (PStr SCRIPT_RAW_URL)
       = Inr (11, ''5eb63bbbe01eeed093cb22bb8f5acdc3'')"
proof -
  have h1: "requests_get (example_env example_release) 1 (PStr SCRIPT_RAW_URL) = Inr example_fetch_response"
    by (simp add: requests_get_def example_env_def)
  have h2: "status_code example_fetch_response = 200"
    by (simp add: example_fetch_response_def)
  have h3: "stream_error example_fetch_response = None"
    by (simp add: example_fetch_response_def)
  have h4: "concat (iter_content example_fetch_response) = ''hello world''"
    by (simp add: example_fetch_response_def)
  from fetch_hello_world [OF h1 h2 h3 h4, of Map.empty] h1 h2 h3 h4 show ?thesis by blast
qed

text \<open>
  C5. The size and the digest depend on the bytes only. For any way \<open>chunks\<close> of cutting
  the bytes \<open>content\<close> into pieces: feeding the pieces to the hash one after the other gives
  the digest of \<open>content\<close> fed at once; so does \<^verbatim>\<open>compute_file_hash\<close>, which reads a file
  holding \<open>content\<close> in pieces of 8192 bytes; and a successful fetch that receives the
  pieces returns the length of \<open>content\<close> and that digest.
\<close>

theorem hash_and_size_independent_of_chunks:
  assumes "concat chunks = content"
  shows "hexdigest (foldl md5_update md5_new chunks) = hexdigest (md5_update md5_new content)
    \<and> compute_file_hash (fs(path \<mapsto> content)) path ''md5''
        = Inr (hexdigest (md5_update md5_new content))
    \<and> (requests_get e n url = Inr response \<and> status_code response = 200
        \<and> stream_error response = None \<and> iter_content response = chunks
        \<longrightarrow> get_file_hash_and_size e n fs' url
              = Inr (length content, hexdigest (md5_update md5_new content)))"
  using assms
  by (simp add: foldl_md5_update compute_file_hash_def hashlib_new_def read_loop_eq
      get_file_hash_and_size_eq)

theorem hash_and_size_independent_of_chunks_witness:
  "concat [''hello '', ''world''] = ''hello world''
   \<and> requests_get (example_env example_release) 1 (PStr SCRIPT_RAW_URL) = Inr example_fetch_response
   \<and> status_code example_fetch_response = 200
   \<and> stream_error example_fetch_response = None
   \<and> iter_content example_fetch_response = [''hello '', ''world'']
   \<and> hexdigest (foldl md5_update md5_new [''hello '', ''world''])
       = hexdigest (md5_update md5_new ''hello world'')
   \<and> compute_file_hash [''/tmp/tmpfile'' \<mapsto> ''hello world''] ''/tmp/tmpfile'' ''md5''
       = Inr (hexdigest (md5_update md5_new ''hello world''))
   \<and> get_file_hash_and_size (example_env example_release) 1 Map.empty (PStr SCRIPT_RAW_URL)
       = Inr (length ''hello world'', hexdigest (md5_update md5_new ''hello world''))"
proof -
  have h0: "concat [''hello '', ''world''] = ''hello world''"
    by simp
  have h1: "requests_get (example_env example_release) 1 (PStr SCRIPT_RAW_URL) = Inr example_fetch_response"
    by (simp add: requests_get_def example_env_def)
  have h2: "status_code example_fetch_response = 200"
    by (simp add: example_fetch_response_def)
  have h3: "stream_error example_fetch_response = None"
    by (simp add: example_fetch_response_def)
  have h4: "iter_content example_fetch_response = [''hello '', ''world'']"
    by (simp add: example_fetch_response_def)
  from hash_and_size_independent_of_chunks [OF h0, of Map.empty "''/tmp/tmpfile''"
      "example_env example_release" 1 "PStr SCRIPT_RAW_URL" example_fetch_response Map.empty]
    h0 h1 h2 h3 h4
  show ?thesis by blast
qed

section \<open>JSON text: properties\<close>

text \<open>
  Reading back what was written: first characters, then integers, then values, by induction
  on the document.
\<close>

lemma hex_val_hex_digit: "k < 16 \<Longrightarrow> hex_val (hex_digit k) = Some k"
proof -
  assume "k < 16"
  then have "k = 0 \<or> k = 1 \<or> k = 2 \<or> k = 3 \<or> k = 4 \<or> k = 5 \<or> k = 6 \<or> k = 7
    \<or> k = 8 \<or> k = 9 \<or> k = 10 \<or> k = 11 \<or> k = 12 \<or> k = 13 \<or> k = 14 \<or> k = 15"
    by arith
  then show ?thesis
    by (elim disjE) (simp_all add: hex_digit_def hex_val_def)
qed

lemma digit_char_props:
  "k < 10 \<Longrightarrow> is_digit (digit_char k) \<and> (of_char (digit_char k) :: nat) = 48 + k"
proof -
  assume "k < 10"
  then have "k = 0 \<or> k = 1 \<or> k = 2 \<or> k = 3 \<or> k = 4 \<or> k = 5 \<or> k = 6 \<or> k = 7
    \<or> k = 8 \<or> k = 9"
    by arith
  then show ?thesis
    by (elim disjE) (simp_all add: digit_char_def is_digit_def)
qed

lemma char_of_div_mod: "char_of (16 * ((of_char c :: nat) div 16) + (of_char c :: nat) mod 16) = c"
  by simp

lemma scanstring_escape_char:
  "scanstring (escape_char c @ t) =
     (case scanstring t of Inl e \<Rightarrow> Inl e | Inr (str, rest) \<Rightarrow> Inr (c # str, rest))"
proof -
  let ?special = "[CHR 0x22, CHR 0x5C, CHR 0x0A, CHR 0x0D, CHR 0x09, CHR 0x08, CHR 0x0C]"
  consider (special) "c \<in> set ?special"
    | (plain) "c \<notin> set ?special" "0x20 \<le> (of_char c :: nat) \<and> (of_char c :: nat) \<le> 0x7E"
    | (coded) "c \<notin> set ?special" "\<not> (0x20 \<le> (of_char c :: nat) \<and> (of_char c :: nat) \<le> 0x7E)"
    by blast
  then show ?thesis
  proof cases
    case special
    then have "c = CHR 0x22 \<or> c = CHR 0x5C \<or> c = CHR 0x0A \<or> c = CHR 0x0D \<or> c = CHR 0x09
        \<or> c = CHR 0x08 \<or> c = CHR 0x0C"
      by simp
    then show ?thesis
      by (elim disjE) (auto simp: escape_char_def backslash_def)
  next
    case plain
    then have e: "escape_char c = [c]"
      by (simp add: escape_char_def)
    from plain have "c \<noteq> CHR 0x22" "c \<noteq> CHR 0x5C" "\<not> (of_char c :: nat) < 0x20"
      by simp_all
    then show ?thesis
      by (simp add: e)
  next
    case coded
    have d: "(of_char c :: nat) div 16 < 16"
      using nat_of_char_less_256 [of c] by arith
    have m: "(of_char c :: nat) mod 16 < 16"
      by simp
    from coded have e: "escape_char c =
        [CHR 0x5C, CHR ''u'', CHR ''0'', CHR ''0'',
         hex_digit ((of_char c :: nat) div 16), hex_digit ((of_char c :: nat) mod 16)]"
      by (simp add: escape_char_def)
    have z: "hex_val (CHR ''0'') = Some 0"
      by (simp add: hex_val_def)
    have "decode_uXXXX (CHR ''0'') (CHR ''0'') (hex_digit ((of_char c :: nat) div 16))
        (hex_digit ((of_char c :: nat) mod 16)) = Inr c"
      by (simp add: decode_uXXXX_def z hex_val_hex_digit [OF d] hex_val_hex_digit [OF m]
          char_of_div_mod)
    then show ?thesis
      by (simp add: e)
  qed
qed

lemma scanstring_escaped:
  "scanstring (concat (map escape_char s) @ CHR 0x22 # rest) = Inr (s, rest)"
  by (induction s) (simp_all add: scanstring_escape_char)

lemma show_nat_0: "show_nat 0 = ''0''"
  by (simp add: show_nat.simps digit_char_def)

lemma show_nat_digits: "list_all is_digit (show_nat n)"
proof (induction n rule: show_nat.induct)
  case (1 n)
  show ?case
  proof (cases "n < 10")
    case True
    then show ?thesis
      by (subst show_nat.simps) (simp add: digit_char_props)
  next
    case False
    then show ?thesis
      using "1.IH" by (subst show_nat.simps) (simp add: digit_char_props)
  qed
qed

lemma show_nat_Cons: "\<exists>c cs. show_nat n = c # cs \<and> (0 < n \<longrightarrow> c \<noteq> CHR ''0'')"
proof (induction n rule: show_nat.induct)
  case (1 n)
  show ?case
  proof (cases "n < 10")
    case True
    have "(of_char (digit_char n) :: nat) = 48 + n"
      using True by (simp add: digit_char_props)
    then have "0 < n \<longrightarrow> digit_char n \<noteq> CHR ''0''"
      by auto
    with True show ?thesis
      by (subst show_nat.simps) simp
  next
    case False
    then have "0 < n div 10" by arith
    with False "1.IH" show ?thesis
      by (subst show_nat.simps) auto
  qed
qed

lemma digits_val_snoc: "digits_val (ds @ [d]) = 10 * digits_val ds + (of_char d - 48)"
  by (simp add: digits_val_def)

lemma digits_val_show_nat: "digits_val (show_nat n) = n"
proof (induction n rule: show_nat.induct)
  case (1 n)
  show ?case
  proof (cases "n < 10")
    case True
    then show ?thesis
      by (subst show_nat.simps) (simp add: digits_val_def digit_char_props)
  next
    case False
    then show ?thesis
      using "1.IH" by (subst show_nat.simps) (simp add: digits_val_snoc digit_char_props)
  qed
qed

lemma value_end_not_digit: "value_end (c # cs) \<Longrightarrow> \<not> is_digit c"
  by (auto simp: value_end_def is_digit_def)

lemma value_end_no_float: "value_end rest \<Longrightarrow> \<not> float_follows rest"
  by (auto simp: value_end_def float_follows_def split: list.splits)

lemma match_integer_show_nat:
  assumes "value_end rest"
  shows "match_integer (show_nat n @ rest) = Some (show_nat n, rest)"
proof -
  from show_nat_Cons [of n] obtain c cs where
    s: "show_nat n = c # cs" and z: "0 < n \<longrightarrow> c \<noteq> CHR ''0''"
    by blast
  have ds: "is_digit c" "list_all is_digit cs"
    using show_nat_digits [of n] by (simp_all add: s)
  have tw: "takeWhile is_digit (cs @ rest) = cs" "dropWhile is_digit (cs @ rest) = rest"
    using ds(2) assms
    by (cases rest; simp add: list_all_iff takeWhile_append2 dropWhile_append2 value_end_not_digit)+
  show ?thesis
  proof (cases "n = 0")
    case True
    then show ?thesis by (simp add: show_nat_0 match_integer_def)
  next
    case False
    with z have "c \<noteq> CHR ''0''" by simp
    with ds(1) tw show ?thesis
      by (simp add: s match_integer_def)
  qed
qed

lemma show_nat_not_minus: "show_nat n = c # cs \<Longrightarrow> c \<noteq> CHR ''-''"
  using show_nat_digits [of n] by (auto simp: is_digit_def)

lemma match_number_show_int:
  assumes "value_end rest"
  shows "match_number (show_int i @ rest) = Some (Inr (PInt i, rest))"
proof (cases "i < 0")
  case True
  then show ?thesis
    by (simp add: show_int_def match_number_def match_integer_show_nat [OF assms]
        value_end_no_float [OF assms] digits_val_show_nat)
next
  case False
  from show_nat_Cons [of "nat i"] obtain c cs where s: "show_nat (nat i) = c # cs"
    by blast
  have "c \<noteq> CHR ''-''"
    using s by (rule show_nat_not_minus)
  with False show ?thesis
    using match_integer_show_nat [OF assms, of "nat i"]
    by (simp add: show_int_def match_number_def s
        value_end_no_float [OF assms] digits_val_show_nat [of "nat i", unfolded s])
qed

lemma is_ws_newline_indent: "list_all is_ws (newline_indent level)"
  by (simp add: newline_indent_def is_ws_def list_all_iff)

lemma skip_ws_newline_indent: "skip_ws (newline_indent level @ t) = skip_ws t"
  using is_ws_newline_indent [of level]
  by (simp add: skip_ws_def list_all_iff dropWhile_append2)

lemma skip_ws_id: "\<not> is_ws c \<Longrightarrow> skip_ws (c # cs) = c # cs"
  by (simp add: skip_ws_def)

lemma value_end_newline_indent: "value_end (newline_indent level @ t)"
  by (simp add: value_end_def newline_indent_def)

lemma value_end_comma: "value_end (CHR '','' # t)"
  by (simp add: value_end_def)

lemma show_int_Cons: "\<exists>c cs. show_int i = c # cs \<and> (c = CHR ''-'' \<or> is_digit c)"
proof (cases "i < 0")
  case True
  then show ?thesis by (simp add: show_int_def)
next
  case False
  from show_nat_Cons [of "nat i"] obtain c cs where s: "show_nat (nat i) = c # cs"
    by blast
  with show_nat_digits [of "nat i"] False show ?thesis
    by (simp add: show_int_def)
qed

lemma iterencode_Cons:
  "\<exists>c cs. iterencode level v = c # cs \<and> \<not> is_ws c \<and> c \<noteq> CHR '']''"
proof (cases v)
  case (PInt i)
  from show_int_Cons [of i] obtain c cs where "show_int i = c # cs" "c = CHR ''-'' \<or> is_digit c"
    by blast
  then show ?thesis
    by (auto simp: PInt is_ws_def is_digit_def)
qed (auto simp: is_ws_def encode_basestring_ascii_def)

lemma join_Cons: "\<exists>t. join sep (e # es) = e @ t"
  by (cases es) simp_all

lemma skip_ws_join:
  assumes "\<And>x. x \<in> set (e # es) \<Longrightarrow> \<exists>c cs. x = c # cs \<and> \<not> is_ws c \<and> c \<noteq> stop"
  shows "\<exists>c cs. join sep (e # es) @ t = c # cs \<and> \<not> is_ws c \<and> c \<noteq> stop"
proof -
  from join_Cons [of sep e es] obtain u where j: "join sep (e # es) = e @ u"
    by blast
  from assms [of e] obtain c cs where "e = c # cs" "\<not> is_ws c" "c \<noteq> stop"
    by auto
  with j show ?thesis by simp
qed

lemma array_loop_items:
  assumes "\<And>x rest n. x \<in> set xs \<Longrightarrow> value_end rest \<Longrightarrow> size x < n
      \<Longrightarrow> scan_once n (iterencode (level + 1) x @ rest) = Inr (x, rest)"
    and "xs \<noteq> []" and "size_list size xs < n"
  shows "array_loop n
      (join (CHR '','' # newline_indent (level + 1)) (map (iterencode (level + 1)) xs)
        @ newline_indent level @ CHR '']'' # rest) = Inr (xs, rest)"
  using assms
proof (induction xs arbitrary: n)
  case Nil
  then show ?case by simp
next
  case (Cons x xs)
  from Cons.prems(3) obtain m where n: "n = Suc m" and m: "size x < m" "size_list size xs < m"
    by (cases n) auto
  show ?case
  proof (cases xs)
    case Nil
    have "scan_once m (iterencode (level + 1) x @ newline_indent level @ CHR '']'' # rest)
        = Inr (x, newline_indent level @ CHR '']'' # rest)"
      using m(1) by (intro Cons.prems(1)) (simp_all add: value_end_newline_indent)
    then show ?thesis
      by (simp add: n Nil skip_ws_newline_indent skip_ws_id is_ws_def)
  next
    case (Cons y ys)
    let ?sep = "CHR '','' # newline_indent (level + 1)"
    let ?tail = "newline_indent level @ CHR '']'' # rest"
    let ?more = "join ?sep (map (iterencode (level + 1)) xs) @ ?tail"
    have 1: "scan_once m (iterencode (level + 1) x @ CHR '','' # newline_indent (level + 1) @ ?more)
        = Inr (x, CHR '','' # newline_indent (level + 1) @ ?more)"
      using m(1) by (intro Cons.prems(1)) (simp_all add: value_end_comma)
    have "\<exists>c cs. ?more = c # cs \<and> \<not> is_ws c \<and> c \<noteq> CHR '']''"
      unfolding Cons list.map
    proof (rule skip_ws_join)
      fix e
      assume "e \<in> set (iterencode (level + 1) y # map (iterencode (level + 1)) ys)"
      then obtain v where "e = iterencode (level + 1) v"
        by auto
      then show "\<exists>c cs. e = c # cs \<and> \<not> is_ws c \<and> c \<noteq> CHR '']''"
        using iterencode_Cons [of "level + 1" v] by simp
    qed
    then have 2: "skip_ws ?more = ?more"
      by (auto simp: skip_ws_id)
    have 3: "array_loop m ?more = Inr (xs, rest)"
      using m(2) Cons.prems(1) by (intro Cons.IH) (simp_all add: Cons)
    show ?thesis
      using 1 2 3
      by (simp add: n Cons skip_ws_newline_indent skip_ws_id is_ws_def)
  qed
qed

lemma skip_ws_space: "skip_ws (CHR '' '' # t) = skip_ws t"
  by (simp add: skip_ws_def is_ws_def)

lemma scan_once_after_space:
  "scan_once n (skip_ws (CHR '' '' # iterencode level v @ rest)) = scan_once n (iterencode level v @ rest)"
proof -
  from iterencode_Cons [of level v] obtain c cs where "iterencode level v = c # cs" "\<not> is_ws c"
    by blast
  then show ?thesis
    by (simp add: skip_ws_space skip_ws_id)
qed

lemma object_loop_items:
  assumes "\<And>k v rest n. (k, v) \<in> set kvs \<Longrightarrow> value_end rest \<Longrightarrow> size v < n
      \<Longrightarrow> scan_once n (iterencode (level + 1) v @ rest) = Inr (v, rest)"
    and "kvs \<noteq> []" and "size_list (size_prod (\<lambda>x. 0) size) kvs < n"
  shows "object_loop n
      (join (CHR '','' # newline_indent (level + 1))
         (map (\<lambda>kv. encode_basestring_ascii (fst kv) @ '': '' @ iterencode (level + 1) (snd kv)) kvs)
        @ newline_indent level @ CHR ''}'' # rest) = Inr (kvs, rest)"
  using assms
proof (induction kvs arbitrary: n)
  case Nil
  then show ?case by simp
next
  case (Cons kv kvs)
  obtain k v where kv: "kv = (k, v)"
    by (cases kv)
  from Cons.prems(3) obtain m where n: "n = Suc m" and m: "size v < m"
      "size_list (size_prod (\<lambda>x. 0) size) kvs < m"
    by (cases n) (auto simp: kv)
  let ?enc = "\<lambda>kv. encode_basestring_ascii (fst kv) @ '': '' @ iterencode (level + 1) (snd kv)"
  show ?case
  proof (cases kvs)
    case Nil
    have "scan_once m (iterencode (level + 1) v @ newline_indent level @ CHR ''}'' # rest)
        = Inr (v, newline_indent level @ CHR ''}'' # rest)"
      using m(1) by (intro Cons.prems(1) [of k]) (simp_all add: value_end_newline_indent kv)
    then show ?thesis
      by (simp add: n Nil kv encode_basestring_ascii_def scanstring_escaped skip_ws_id is_ws_def
          scan_once_after_space skip_ws_newline_indent)
  next
    case (Cons kv' kvs')
    let ?more = "join (CHR '','' # newline_indent (level + 1)) (map ?enc kvs)
        @ newline_indent level @ CHR ''}'' # rest"
    have 1: "scan_once m (iterencode (level + 1) v @ CHR '','' # newline_indent (level + 1) @ ?more)
        = Inr (v, CHR '','' # newline_indent (level + 1) @ ?more)"
      using m(1) by (intro Cons.prems(1) [of k]) (simp_all add: value_end_comma kv)
    have "\<exists>c cs. ?more = c # cs \<and> \<not> is_ws c \<and> c \<noteq> CHR ''}''"
      unfolding Cons list.map
    proof (rule skip_ws_join)
      fix e
      assume "e \<in> set (?enc kv' # map ?enc kvs')"
      then obtain p where "e = ?enc p"
        by auto
      then show "\<exists>c cs. e = c # cs \<and> \<not> is_ws c \<and> c \<noteq> CHR ''}''"
        by (simp add: encode_basestring_ascii_def is_ws_def)
    qed
    then have 2: "skip_ws ?more = ?more"
      by (auto simp: skip_ws_id)
    have 3: "object_loop m ?more = Inr (kvs, rest)"
    proof (rule Cons.IH)
      fix k' v' rest' n'
      assume "(k', v') \<in> set kvs" "value_end rest'" "size v' < n'"
      then show "scan_once n' (iterencode (level + 1) v' @ rest') = Inr (v', rest')"
        by (intro Cons.prems(1) [of k']) simp_all
    next
      show "kvs \<noteq> []" by (simp add: Cons)
    next
      show "size_list (size_prod (\<lambda>x. 0) size) kvs < m" by (rule m(2))
    qed
    show ?thesis
      using 1 2 3
      by (simp add: n Cons kv encode_basestring_ascii_def scanstring_escaped skip_ws_id is_ws_def
          scan_once_after_space skip_ws_newline_indent)
  qed
qed

lemma dict_set_fresh: "k \<notin> fst ` set d \<Longrightarrow> dict_set k v d = d @ [(k, v)]"
  by (induction d) auto

lemma foldl_dict_set:
  "distinct (map fst (acc @ pairs)) \<Longrightarrow>
     foldl (\<lambda>d kv. dict_set (fst kv) (snd kv) d) acc pairs = acc @ pairs"
proof (induction pairs arbitrary: acc)
  case Nil
  then show ?case by simp
next
  case (Cons p pairs)
  from Cons.prems have "fst p \<notin> fst ` set acc"
    by auto
  then have "dict_set (fst p) (snd p) acc = acc @ [p]"
    by (simp add: dict_set_fresh)
  with Cons.IH [of "acc @ [p]"] Cons.prems show ?case
    by simp
qed

lemma dict_of_pairs_distinct: "distinct (map fst pairs) \<Longrightarrow> dict_of_pairs pairs = pairs"
  using foldl_dict_set [of "[]" pairs] by (simp add: dict_of_pairs_def)

lemma scan_once_iterencode:
  "wf_py v \<Longrightarrow> value_end rest \<Longrightarrow> size v < n
    \<Longrightarrow> scan_once n (iterencode level v @ rest) = Inr (v, rest)"
proof (induction v arbitrary: level rest n)
  case PNone
  then obtain m where "n = Suc m" by (cases n) auto
  then show ?case by simp
next
  case (PBool b)
  then obtain m where "n = Suc m" by (cases n) auto
  then show ?case by (cases b) simp_all
next
  case (PInt i)
  then obtain m where n: "n = Suc m" by (cases n) auto
  from show_int_Cons [of i] obtain c cs where
    s: "show_int i = c # cs" and c: "c = CHR ''-'' \<or> is_digit c"
    by blast
  from c have nc: "c \<noteq> CHR 0x22" "c \<noteq> CHR ''{''" "c \<noteq> CHR ''[''" "c \<noteq> CHR ''n''"
      "c \<noteq> CHR ''t''" "c \<noteq> CHR ''f''"
    by (auto simp: is_digit_def)
  have "match_number (c # cs @ rest) = Some (Inr (PInt i, rest))"
    using match_number_show_int [OF PInt.prems(2), of i] by (simp add: s)
  then show ?case
    by (simp add: n s nc)
next
  case (PStr s)
  then obtain m where "n = Suc m" by (cases n) auto
  then show ?case
    by (simp add: encode_basestring_ascii_def scanstring_escaped)
next
  case (PList xs)
  from PList.prems(3) obtain m where n: "n = Suc m" and m: "size_list size xs < m"
    by (cases n) auto
  show ?case
  proof (cases "xs = []")
    case True
    then show ?thesis by (simp add: n skip_ws_def is_ws_def)
  next
    case False
    let ?body = "join (CHR '','' # newline_indent (level + 1)) (map (iterencode (level + 1)) xs)
        @ newline_indent level @ CHR '']'' # rest"
    have ih: "scan_once n' (iterencode (level + 1) x @ rest') = Inr (x, rest')"
      if "x \<in> set xs" "value_end rest'" "size x < n'" for x rest' n'
      using that PList.prems(1) by (intro PList.IH) (simp_all add: list_all_iff)
    have loop: "array_loop m ?body = Inr (xs, rest)"
      using ih False m by (rule array_loop_items)
    obtain x xs' where xs: "xs = x # xs'"
      using False by (cases xs) auto
    have "\<exists>c cs. ?body = c # cs \<and> \<not> is_ws c \<and> c \<noteq> CHR '']''"
      unfolding xs list.map
    proof (rule skip_ws_join)
      fix e
      assume "e \<in> set (iterencode (level + 1) x # map (iterencode (level + 1)) xs')"
      then obtain v where "e = iterencode (level + 1) v"
        by auto
      then show "\<exists>c cs. e = c # cs \<and> \<not> is_ws c \<and> c \<noteq> CHR '']''"
        using iterencode_Cons [of "level + 1" v] by simp
    qed
    then obtain c cs where b: "?body = c # cs" "\<not> is_ws c" "c \<noteq> CHR '']''"
      by blast
    have "scan_once (Suc m) (CHR ''['' # newline_indent (level + 1) @ ?body) = Inr (PList xs, rest)"
      using loop b by (simp add: skip_ws_newline_indent skip_ws_id)
    with False show ?thesis
      by (simp add: n)
  qed
next
  case (PDict kvs)
  from PDict.prems(3) obtain m where n: "n = Suc m"
    and m: "size_list (size_prod (\<lambda>x. 0) size) kvs < m"
    by (cases n) auto
  show ?case
  proof (cases "kvs = []")
    case True
    then show ?thesis by (simp add: n skip_ws_def is_ws_def)
  next
    case False
    let ?enc = "\<lambda>kv. encode_basestring_ascii (fst kv) @ '': '' @ iterencode (level + 1) (snd kv)"
    let ?body = "join (CHR '','' # newline_indent (level + 1)) (map ?enc kvs)
        @ newline_indent level @ CHR ''}'' # rest"
    have ih: "scan_once n' (iterencode (level + 1) v @ rest') = Inr (v, rest')"
      if "(k, v) \<in> set kvs" "value_end rest'" "size v < n'" for k v rest' n'
    proof (rule PDict.IH [of "(k, v)"])
      show "(k, v) \<in> set kvs" by (rule that(1))
      show "v \<in> Basic_BNFs.snds (k, v)" by simp
      show "wf_py v" using that(1) PDict.prems(1) by (auto simp: list_all_iff)
      show "value_end rest'" by (rule that(2))
      show "size v < n'" by (rule that(3))
    qed
    have loop: "object_loop m ?body = Inr (kvs, rest)"
      using ih False m by (rule object_loop_items)
    obtain kv kvs' where kvs: "kvs = kv # kvs'"
      using False by (cases kvs) auto
    have "\<exists>c cs. ?body = c # cs \<and> \<not> is_ws c \<and> c \<noteq> CHR ''}''"
      unfolding kvs list.map
    proof (rule skip_ws_join)
      fix e
      assume "e \<in> set (?enc kv # map ?enc kvs')"
      then obtain p where "e = ?enc p"
        by auto
      then show "\<exists>c cs. e = c # cs \<and> \<not> is_ws c \<and> c \<noteq> CHR ''}''"
        by (simp add: encode_basestring_ascii_def is_ws_def)
    qed
    then obtain c cs where b: "?body = c # cs" "\<not> is_ws c" "c \<noteq> CHR ''}''"
      by blast
    have d: "dict_of_pairs kvs = kvs"
      using PDict.prems(1) by (simp add: dict_of_pairs_distinct)
    have "scan_once (Suc m) (CHR ''{'' # newline_indent (level + 1) @ ?body) = Inr (PDict kvs, rest)"
      using loop b d by (simp add: skip_ws_newline_indent skip_ws_id)
    with False show ?thesis
      by (simp add: n)
  qed
qed

lemma length_join: "sum_list (map length es) \<le> length (join sep es)"
  by (induction sep es rule: join.induct) simp_all

lemma sum_list_mono_length:
  assumes "\<And>x. x \<in> set xs \<Longrightarrow> f x < length (g x)"
  shows "size_list f xs \<le> sum_list (map length (map g xs))"
  using assms
proof (induction xs)
  case Nil
  then show ?case by simp
next
  case (Cons x xs)
  from Cons.prems [of x] have "f x < length (g x)" by simp
  moreover have "size_list f xs \<le> sum_list (map length (map g xs))"
    by (rule Cons.IH) (simp add: Cons.prems)
  ultimately show ?case by simp
qed

lemma show_int_nonempty: "show_int i \<noteq> []"
  using show_int_Cons [of i] by auto

lemma size_less_length_iterencode: "size v < length (iterencode level v)"
proof (induction v arbitrary: level)
  case (PList xs)
  show ?case
  proof (cases "xs = []")
    case True
    then show ?thesis by simp
  next
    case False
    have "size_list size xs \<le> sum_list (map length (map (iterencode (level + 1)) xs))"
      by (rule sum_list_mono_length) (rule PList.IH)
    also have "\<dots> \<le> length (join (CHR '','' # newline_indent (level + 1)) (map (iterencode (level + 1)) xs))"
      by (rule length_join)
    finally show ?thesis
      using False by (simp add: newline_indent_def)
  qed
next
  case (PDict kvs)
  show ?case
  proof (cases "kvs = []")
    case True
    then show ?thesis by simp
  next
    case False
    let ?enc = "\<lambda>kv. encode_basestring_ascii (fst kv) @ '': '' @ iterencode (level + 1) (snd kv)"
    have "size_list (size_prod (\<lambda>x. 0) size) kvs \<le> sum_list (map length (map ?enc kvs))"
    proof (rule sum_list_mono_length)
      fix kv
      assume kv: "kv \<in> set kvs"
      obtain k v where p: "kv = (k, v)" by (cases kv)
      have "size v < length (iterencode (level + 1) v)"
        using kv by (intro PDict.IH [of kv]) (simp_all add: p)
      then show "size_prod (\<lambda>x. 0) size kv < length (?enc kv)"
        by (simp add: p encode_basestring_ascii_def)
    qed
    also have "\<dots> \<le> length (join (CHR '','' # newline_indent (level + 1)) (map ?enc kvs))"
      by (rule length_join)
    finally show ?thesis
      using False by (simp add: newline_indent_def)
  qed
qed (simp_all add: show_int_nonempty encode_basestring_ascii_def)

lemma json_loads_json_dump: "wf_py v \<Longrightarrow> json_loads (json_dump v) = Inr v"
proof -
  assume wf: "wf_py v"
  from iterencode_Cons [of 0 v] obtain c cs where e: "iterencode 0 v = c # cs" "\<not> is_ws c"
    by blast
  have "size v < Suc (2 * length (iterencode 0 v))"
    using size_less_length_iterencode [of v 0] by simp
  with wf have "scan_once (Suc (2 * length (iterencode 0 v))) (iterencode 0 v @ []) = Inr (v, [])"
    by (intro scan_once_iterencode) (simp_all add: value_end_def)
  then show ?thesis
    using e by (simp add: json_loads_def json_dump_def skip_ws_id) (simp add: skip_ws_def)
qed

lemma is_ascii_literal:
  "is_ascii (CHR 0x22)" "is_ascii (CHR 0x5C)" "is_ascii (CHR 0x0A)" "is_ascii (CHR '' '')"
  "is_ascii (CHR '','')" "is_ascii (CHR '':'')" "is_ascii (CHR ''-'')"
  "is_ascii (CHR ''['')" "is_ascii (CHR '']'')" "is_ascii (CHR ''{'')" "is_ascii (CHR ''}'')"
  "is_ascii (CHR ''a'')" "is_ascii (CHR ''b'')" "is_ascii (CHR ''e'')" "is_ascii (CHR ''f'')"
  "is_ascii (CHR ''l'')" "is_ascii (CHR ''n'')" "is_ascii (CHR ''r'')" "is_ascii (CHR ''s'')"
  "is_ascii (CHR ''t'')" "is_ascii (CHR ''u'')" "is_ascii (CHR ''0'')"
  by (simp_all add: is_ascii_def)

lemma hex_digit_ascii: "k < 16 \<Longrightarrow> is_ascii (hex_digit k)"
proof -
  assume "k < 16"
  then have "k = 0 \<or> k = 1 \<or> k = 2 \<or> k = 3 \<or> k = 4 \<or> k = 5 \<or> k = 6 \<or> k = 7
    \<or> k = 8 \<or> k = 9 \<or> k = 10 \<or> k = 11 \<or> k = 12 \<or> k = 13 \<or> k = 14 \<or> k = 15"
    by arith
  then show ?thesis
    by (elim disjE) (simp_all add: hex_digit_def is_ascii_def)
qed

lemma escape_char_ascii: "list_all is_ascii (escape_char c)"
proof -
  have d: "(of_char c :: nat) div 16 < 16"
    using nat_of_char_less_256 [of c] by arith
  have m: "(of_char c :: nat) mod 16 < 16"
    by simp
  have p: "is_ascii c" if "(of_char c :: nat) \<le> 0x7E"
    using that by (simp add: is_ascii_def)
  show ?thesis
    using hex_digit_ascii [OF d] hex_digit_ascii [OF m] p
    by (simp add: escape_char_def is_ascii_literal)
qed

lemma encode_basestring_ascii_ascii: "list_all is_ascii (encode_basestring_ascii s)"
proof -
  have "list_all is_ascii (concat (map escape_char s))"
    by (induction s) (simp_all add: escape_char_ascii)
  then show ?thesis
    by (simp add: encode_basestring_ascii_def is_ascii_literal)
qed

lemma show_int_ascii: "list_all is_ascii (show_int i)"
proof -
  have "list_all is_ascii (show_nat n)" for n
    using show_nat_digits [of n] by (auto simp: list_all_iff is_digit_def is_ascii_def)
  then show ?thesis
    by (simp add: show_int_def is_ascii_literal)
qed

lemma newline_indent_ascii: "list_all is_ascii (newline_indent level)"
  by (simp add: newline_indent_def is_ascii_literal list_all_iff)

lemma join_ascii:
  "list_all is_ascii sep \<Longrightarrow> (\<And>e. e \<in> set es \<Longrightarrow> list_all is_ascii e)
    \<Longrightarrow> list_all is_ascii (join sep es)"
  by (induction sep es rule: join.induct) simp_all

lemma iterencode_ascii: "list_all is_ascii (iterencode level v)"
proof (induction v arbitrary: level)
  case (PList xs)
  have "list_all is_ascii (join (CHR '','' # newline_indent (level + 1)) (map (iterencode (level + 1)) xs))"
    by (rule join_ascii) (auto simp: newline_indent_ascii is_ascii_literal PList.IH)
  then show ?case
    by (simp add: newline_indent_ascii is_ascii_literal)
next
  case (PDict kvs)
  let ?enc = "\<lambda>kv. encode_basestring_ascii (fst kv) @ '': '' @ iterencode (level + 1) (snd kv)"
  have "list_all is_ascii (join (CHR '','' # newline_indent (level + 1)) (map ?enc kvs))"
  proof (rule join_ascii)
    show "list_all is_ascii (CHR '','' # newline_indent (level + 1))"
      by (simp add: newline_indent_ascii is_ascii_literal)
  next
    fix e
    assume "e \<in> set (map ?enc kvs)"
    then obtain kv where kv: "kv \<in> set kvs" "e = ?enc kv"
      by auto
    obtain k v where p: "kv = (k, v)" by (cases kv)
    have "list_all is_ascii (iterencode (level + 1) v)"
      using kv(1) by (intro PDict.IH [of kv]) (simp_all add: p)
    then show "list_all is_ascii e"
      by (simp add: kv(2) p encode_basestring_ascii_ascii is_ascii_literal)
  qed
  then show ?case
    by (simp add: newline_indent_ascii is_ascii_literal)
qed (simp_all add: show_int_ascii encode_basestring_ascii_ascii is_ascii_literal)

lemma json_load_json_dump: "wf_py v \<Longrightarrow> json_load (json_dump v) = Inr v"
  using iterencode_ascii [of 0 v]
  by (simp add: json_load_def json_loads_json_dump) (simp add: json_dump_def is_ascii_def [abs_def])

lemma py_eq_refl: "wf_py v \<Longrightarrow> py_eq v v"
proof (induction v)
  case (PList xs)
  then show ?case
    by (simp add: list_all_iff list_all2_same)
next
  case (PDict kvs)
  have "case map_of kvs (fst kv) of None \<Rightarrow> False | Some w \<Rightarrow> py_eq (snd kv) w"
    if "kv \<in> set kvs" for kv
  proof -
    obtain k v where p: "kv = (k, v)" by (cases kv)
    have "map_of kvs k = Some v"
      using that PDict.prems by (simp add: p)
    moreover have "py_eq v v"
      using that PDict.prems by (intro PDict.IH [of kv]) (auto simp: p list_all_iff)
    ultimately show ?thesis by (simp add: p)
  qed
  then show ?case
    by (simp add: list_all_iff)
qed simp_all

lemmas scan_once_numeral =
  scan_once.simps(2) [of "pred_numeral k", folded numeral_eq_Suc]
  array_loop.simps(2) [of "pred_numeral k", folded numeral_eq_Suc]
  object_loop.simps(2) [of "pred_numeral k", folded numeral_eq_Suc] for k

lemmas json_read_simps = json_load_def json_loads_def scan_once_numeral skip_ws_def is_ws_def
  match_number_def match_integer_def float_follows_def is_digit_def digits_val_def
  dict_of_pairs_def backslash_def decode_uXXXX_def hex_val_def

lemma json_dump_example:
  "json_dump example_small_db =
     [CHR ''{'', CHR 0x0A,
      CHR '' '', CHR '' '', CHR '' '', CHR '' '', CHR 0x22, CHR ''v'', CHR 0x22, CHR '':'', CHR '' '',
      CHR ''1'', CHR '','', CHR 0x0A,
      CHR '' '', CHR '' '', CHR '' '', CHR '' '', CHR 0x22, CHR ''t'', CHR ''a'', CHR ''g'', CHR ''s'',
      CHR 0x22, CHR '':'', CHR '' '', CHR ''['', CHR 0x0A,
      CHR '' '', CHR '' '', CHR '' '', CHR '' '', CHR '' '', CHR '' '', CHR '' '', CHR '' '',
      CHR ''0'', CHR '','', CHR 0x0A,
      CHR '' '', CHR '' '', CHR '' '', CHR '' '', CHR '' '', CHR '' '', CHR '' '', CHR '' '',
      CHR 0x22, CHR ''a'', CHR '' '', CHR ''b'', CHR 0x22, CHR 0x0A,
      CHR '' '', CHR '' '', CHR '' '', CHR '' '', CHR '']'', CHR 0x0A,
      CHR ''}'']"
  by (simp add: json_dump_def example_small_db_def newline_indent_def show_int_def show_nat.simps
      digit_char_def encode_basestring_ascii_def escape_char_def replicate_numeral)

lemma json_load_example: "json_load (json_dump example_small_db) = Inr example_small_db"
  unfolding json_dump_example by (simp add: json_read_simps example_small_db_def)

lemma json_load_not_json: "json_load ''not json'' = Inl JSONDecodeError"
  by (simp add: json_read_simps)

lemma json_load_empty_object: "json_load ''{}'' = Inr (PDict [])"
  by (simp add: json_read_simps)

lemma generate_update_db_wf: "generate_update_db e fs = Inr doc \<Longrightarrow> wf_py doc"
  using generate_update_db_result [of e fs doc] by auto

section \<open>Saving the manifest: properties\<close>

text \<open>
  C2. The comparison is Python's \<^verbatim>\<open>==\<close> on the parsed document (\<open>py_eq\<close>: all fields,
  the timestamp among them; dictionaries key by key whatever their order; \<^verbatim>\<open>True\<close> equal
  to \<^verbatim>\<open>1\<close>). When the file exists and its parsed content equals the new document, the
  file system is left as it is and the call reports no changes. When the file is absent,
  or its parsed content differs, the file holds the new document as JSON text indented by
  four spaces afterwards, no other file is touched, and the call reports the save.
\<close>

theorem save_writes_iff_changed:
  "(fs p = Some content \<and> json_load content = Inr existing \<and> py_eq existing d
      \<longrightarrow> save_update_db_to_file_if_changed d p fs
            = (fs, Inr ''No changes detected in the update database.''))
   \<and> (fs p = None \<or> (fs p = Some content \<and> json_load content = Inr existing \<and> \<not> py_eq existing d)
      \<longrightarrow> save_update_db_to_file_if_changed d p fs
            = (fs(p \<mapsto> json_dump d), Inr (''Update database saved to '' @ p @ ''.'')))"
  by (auto simp: save_update_db_to_file_if_changed_def write_update_db_def)

theorem save_writes_iff_changed_witness:
  "json_load (json_dump example_small_db) = Inr example_small_db
   \<and> py_eq example_small_db example_small_db
   \<and> save_update_db_to_file_if_changed example_small_db UPDATE_DB_FILE
        [UPDATE_DB_FILE \<mapsto> json_dump example_small_db]
       = ([UPDATE_DB_FILE \<mapsto> json_dump example_small_db],
          Inr ''No changes detected in the update database.'')
   \<and> save_update_db_to_file_if_changed example_small_db UPDATE_DB_FILE Map.empty
       = ([UPDATE_DB_FILE \<mapsto> json_dump example_small_db],
          Inr (''Update database saved to '' @ UPDATE_DB_FILE @ ''.''))
   \<and> json_load ''{}'' = Inr (PDict [])
   \<and> \<not> py_eq (PDict []) example_small_db
   \<and> save_update_db_to_file_if_changed example_small_db UPDATE_DB_FILE [UPDATE_DB_FILE \<mapsto> ''{}'']
       = ([UPDATE_DB_FILE \<mapsto> json_dump example_small_db],
          Inr (''Update database saved to '' @ UPDATE_DB_FILE @ ''.''))"
proof -
  have e: "py_eq example_small_db example_small_db"
    by (simp add: example_small_db_def)
  have n: "\<not> py_eq (PDict []) example_small_db"
    by (simp add: example_small_db_def)
  have a: "save_update_db_to_file_if_changed example_small_db UPDATE_DB_FILE
        [UPDATE_DB_FILE \<mapsto> json_dump example_small_db]
       = ([UPDATE_DB_FILE \<mapsto> json_dump example_small_db],
          Inr ''No changes detected in the update database.'')"
    using save_writes_iff_changed [of "[UPDATE_DB_FILE \<mapsto> json_dump example_small_db]" UPDATE_DB_FILE
        "json_dump example_small_db" example_small_db example_small_db]
      json_load_example e
    by simp
  have b: "save_update_db_to_file_if_changed example_small_db UPDATE_DB_FILE Map.empty
       = ([UPDATE_DB_FILE \<mapsto> json_dump example_small_db],
          Inr (''Update database saved to '' @ UPDATE_DB_FILE @ ''.''))"
    using save_writes_iff_changed [of Map.empty UPDATE_DB_FILE "[]" PNone example_small_db]
    by simp
  have c: "save_update_db_to_file_if_changed example_small_db UPDATE_DB_FILE [UPDATE_DB_FILE \<mapsto> ''{}'']
       = ([UPDATE_DB_FILE \<mapsto> json_dump example_small_db],
          Inr (''Update database saved to '' @ UPDATE_DB_FILE @ ''.''))"
    using save_writes_iff_changed [of "[UPDATE_DB_FILE \<mapsto> ''{}'']" UPDATE_DB_FILE "''{}''" "PDict []" example_small_db]
      json_load_empty_object n
    by simp
  from json_load_example e a b json_load_empty_object n c show ?thesis
    by blast
qed

text \<open>
  C3, as the code has it. Nothing guards \<^verbatim>\<open>json.load\<close>: when the file exists and its text
  is not JSON, the call fails with the decoding error, and the file system is as before;
  the new document is not written.
\<close>

theorem save_fails_on_unparseable_file:
  assumes "fs p = Some content" and "json_load content = Inl JSONDecodeError"
  shows "save_update_db_to_file_if_changed d p fs = (fs, Inl JSONDecodeError)"
  using assms by (simp add: save_update_db_to_file_if_changed_def)

theorem save_fails_on_unparseable_file_witness:
  "[UPDATE_DB_FILE \<mapsto> ''not json''] UPDATE_DB_FILE = Some ''not json''
   \<and> json_load ''not json'' = Inl JSONDecodeError
   \<and> save_update_db_to_file_if_changed example_manifest UPDATE_DB_FILE [UPDATE_DB_FILE \<mapsto> ''not json'']
       = ([UPDATE_DB_FILE \<mapsto> ''not json''], Inl JSONDecodeError)"
proof -
  have h: "[UPDATE_DB_FILE \<mapsto> ''not json''] UPDATE_DB_FILE = Some ''not json''"
    by simp
  from save_fails_on_unparseable_file [of "[UPDATE_DB_FILE \<mapsto> ''not json'']" UPDATE_DB_FILE "''not json''" example_manifest,
      OF h json_load_not_json] h json_load_not_json
  show ?thesis by blast
qed

text \<open>
  C3 as the specification words it fails: on a file holding \<^verbatim>\<open>not json\<close> the call does
  not overwrite the file and report success.
\<close>

theorem save_unparseable_file_counterexample:
  "save_update_db_to_file_if_changed example_small_db UPDATE_DB_FILE [UPDATE_DB_FILE \<mapsto> ''not json'']
     = ([UPDATE_DB_FILE \<mapsto> ''not json''], Inl JSONDecodeError)
   \<and> save_update_db_to_file_if_changed example_small_db UPDATE_DB_FILE [UPDATE_DB_FILE \<mapsto> ''not json'']
     \<noteq> ([UPDATE_DB_FILE \<mapsto> json_dump example_small_db],
         Inr (''Update database saved to '' @ UPDATE_DB_FILE @ ''.''))"
  by (simp add: save_update_db_to_file_if_changed_def json_load_not_json)

text \<open>
  C6. Whatever the first call found, after it has returned a second call with the same
  document and path reports no changes and leaves the file system, and so the bytes of the
  file, as the first call left them.
\<close>

theorem save_twice_is_noop:
  assumes "wf_py d" and "save_update_db_to_file_if_changed d p fs = (fs1, Inr line)"
  shows "save_update_db_to_file_if_changed d p fs1
     = (fs1, Inr ''No changes detected in the update database.'')"
proof (cases "fs p")
  case None
  with assms(2) have "fs1 = fs(p \<mapsto> json_dump d)"
    by (simp add: save_update_db_to_file_if_changed_def write_update_db_def)
  then show ?thesis
    by (simp add: save_update_db_to_file_if_changed_def json_load_json_dump [OF assms(1)]
        py_eq_refl [OF assms(1)])
next
  case (Some content)
  from assms(2) Some obtain existing where l: "json_load content = Inr existing"
    by (cases "json_load content") (simp_all add: save_update_db_to_file_if_changed_def)
  show ?thesis
  proof (cases "py_eq existing d")
    case True
    with assms(2) Some l have "fs1 = fs"
      by (simp add: save_update_db_to_file_if_changed_def)
    with Some l True show ?thesis
      by (simp add: save_update_db_to_file_if_changed_def)
  next
    case False
    with assms(2) Some l have "fs1 = fs(p \<mapsto> json_dump d)"
      by (simp add: save_update_db_to_file_if_changed_def write_update_db_def)
    then show ?thesis
      by (simp add: save_update_db_to_file_if_changed_def json_load_json_dump [OF assms(1)]
          py_eq_refl [OF assms(1)])
  qed
qed

theorem save_twice_is_noop_witness:
  "wf_py example_manifest
   \<and> save_update_db_to_file_if_changed example_manifest UPDATE_DB_FILE Map.empty
       = ([UPDATE_DB_FILE \<mapsto> json_dump example_manifest],
          Inr (''Update database saved to '' @ UPDATE_DB_FILE @ ''.''))
   \<and> save_update_db_to_file_if_changed example_manifest UPDATE_DB_FILE
        [UPDATE_DB_FILE \<mapsto> json_dump example_manifest]
       = ([UPDATE_DB_FILE \<mapsto> json_dump example_manifest],
          Inr ''No changes detected in the update database.'')"
proof -
  have w: "wf_py example_manifest"
    using generate_example [of Map.empty] by (rule generate_update_db_wf)
  have s: "save_update_db_to_file_if_changed example_manifest UPDATE_DB_FILE Map.empty
       = ([UPDATE_DB_FILE \<mapsto> json_dump example_manifest],
          Inr (''Update database saved to '' @ UPDATE_DB_FILE @ ''.''))"
    by (simp add: save_update_db_to_file_if_changed_def write_update_db_def)
  from save_twice_is_noop [OF w s] w s show ?thesis
    by blast
qed

text \<open>
  C7. A document whose dictionaries hold no key twice, as every Python dictionary and so
  every manifest of \<^verbatim>\<open>generate_update_db\<close> does, is read back from its JSON text as it
  was.
\<close>

theorem manifest_json_roundtrip:
  assumes "wf_py d"
  shows "json_load (json_dump d) = Inr d"
  using assms by (rule json_load_json_dump)

theorem manifest_json_roundtrip_witness:
  "wf_py example_manifest
   \<and> generate_update_db (example_env example_release) Map.empty = Inr example_manifest
   \<and> json_load (json_dump example_manifest) = Inr example_manifest"
proof -
  have w: "wf_py example_manifest"
    using generate_example [of Map.empty] by (rule generate_update_db_wf)
  from manifest_json_roundtrip [OF w] w generate_example [of Map.empty] show ?thesis
    by blast
qed

end
